theory Spec2Isabelle
  imports Main "HOL-Library.Word"
begin

section \<open>Common C and GLib notions\<close>

text \<open>
  \<^verbatim>\<open>gint\<close> is a 32-bit signed integer, read from the word by \<open>sint\<close> (so \<open>- 1\<close> is the
  word of all ones); addition and subtraction on it wrap around (the atomic increment and
  decrement of GLib are defined on overflow).
\<close>

type_synonym gint = "32 word"

text \<open>
  A pointer is \<^verbatim>\<open>NULL\<close> or the address of a slice. A slice that has been given back
  with \<^verbatim>\<open>g_slice_free\<close> is gone: its address is never handed out again by the model,
  and dereferencing it is the fault \<open>InvalidPointer\<close> (undefined behaviour in C).
\<close>

datatype pointer = NULL | Addr nat

datatype fault = InvalidPointer

text \<open>
  \<^verbatim>\<open>g_return_if_fail\<close>, \<^verbatim>\<open>g_return_val_if_fail\<close> and \<^verbatim>\<open>g_return_val_if_reached\<close> log a message
  of level critical and return; \<^verbatim>\<open>g_warn_if_reached\<close> logs a message of level warning and
  goes on. Neither aborts.
\<close>

datatype GLogLevel = G_LOG_LEVEL_CRITICAL | G_LOG_LEVEL_WARNING

section \<open>Data of jsemantics.c\<close>

text \<open>The fields of \<^verbatim>\<open>struct JSemantics\<close>, in the order of the declaration.\<close>

record JSemantics =
  atomicity :: gint
  consistency :: gint
  persistency :: gint
  concurrency :: gint
  safety :: gint
  security :: gint
  immutable :: bool
  ref_count :: gint

text \<open>
  The enumerations \<^verbatim>\<open>JSemanticsTemplate\<close> and \<^verbatim>\<open>JSemanticsType\<close> are declared in
  \<^verbatim>\<open>jsemantics.h\<close>. A C enumeration variable can hold any integer, so each type has one more
  constructor, standing for every value that is none of the enumerators: the
  \<^verbatim>\<open>default\<close> branch of a \<^verbatim>\<open>switch\<close>.
\<close>

datatype JSemanticsTemplate =
    J_SEMANTICS_TEMPLATE_DEFAULT
  | J_SEMANTICS_TEMPLATE_POSIX
  | J_SEMANTICS_TEMPLATE_CHECKPOINT
  | J_SEMANTICS_TEMPLATE_out_of_range

datatype JSemanticsType =
    J_SEMANTICS_ATOMICITY
  | J_SEMANTICS_CONCURRENCY
  | J_SEMANTICS_CONSISTENCY
  | J_SEMANTICS_PERSISTENCY
  | J_SEMANTICS_SAFETY
  | J_SEMANTICS_SECURITY
  | J_SEMANTICS_out_of_range

text \<open>
  The enumerators of the six dimensions are stored in \<^verbatim>\<open>gint\<close> fields. Their names are
  those the source uses; their numbers are given by \<^verbatim>\<open>jsemantics.h\<close>, which is not part
  of the sources at hand, so every function that mentions an enumerator takes the header's
  numbering \<open>H\<close> as a parameter, and every result holds for any numbering.
\<close>

datatype JSemanticsEnumerator =
    J_SEMANTICS_ATOMICITY_BATCH
  | J_SEMANTICS_ATOMICITY_OPERATION
  | J_SEMANTICS_ATOMICITY_NONE
  | J_SEMANTICS_CONCURRENCY_OVERLAPPING
  | J_SEMANTICS_CONCURRENCY_NON_OVERLAPPING
  | J_SEMANTICS_CONCURRENCY_NONE
  | J_SEMANTICS_CONSISTENCY_IMMEDIATE
  | J_SEMANTICS_CONSISTENCY_EVENTUAL
  | J_SEMANTICS_CONSISTENCY_NONE
  | J_SEMANTICS_PERSISTENCY_IMMEDIATE
  | J_SEMANTICS_PERSISTENCY_EVENTUAL
  | J_SEMANTICS_PERSISTENCY_NONE
  | J_SEMANTICS_SAFETY_STORAGE
  | J_SEMANTICS_SAFETY_NETWORK
  | J_SEMANTICS_SAFETY_NONE
  | J_SEMANTICS_SECURITY_STRICT
  | J_SEMANTICS_SECURITY_NONE

type_synonym jsemantics_h = "JSemanticsEnumerator \<Rightarrow> gint"

section \<open>Data of jstore-iterator.c\<close>

text \<open>The fields of \<^verbatim>\<open>struct JStoreIterator\<close>, in the order of the declaration.\<close>

record JStoreIterator =
  connection :: pointer
  store :: pointer
  cursor :: pointer

text \<open>
  The operation cache, the store, the connection pool, the BSON and MongoDB libraries and the
  collection constructor are outside \<^verbatim>\<open>jstore-iterator.c\<close>. The model records every call the
  iterator makes to them, with its arguments, in the order of the calls. The arguments of
  \<open>Mongo_find\<close> are those of \<^verbatim>\<open>mongo_find\<close>: connection, namespace, query, fields, limit, skip
  and options.
\<close>

datatype collaborator_call =
    J_operation_cache_flush
  | J_store_ref pointer
  | J_connection_pool_pop_meta nat
  | Bson_shared_empty
  | J_store_collection_collections pointer
  | Mongo_find pointer pointer pointer pointer gint gint gint
  | Mongo_cursor_destroy pointer
  | J_connection_pool_push_meta nat pointer
  | J_store_unref pointer
  | Mongo_cursor_next pointer
  | Mongo_cursor_bson pointer
  | J_collection_new_from_bson pointer pointer

text \<open>
  What the collaborators return is not decided by the sources at hand, so it is a parameter:
  \<open>returned W h c\<close> is the pointer that the call \<open>c\<close> returns when \<open>h\<close> are the calls made
  before it (\<open>NULL\<close> where the library reports a failure that way), \<open>returned_int W h c\<close> the
  integer, and \<open>MONGO_OK W\<close> the constant of that name in \<^verbatim>\<open>mongo.h\<close>.
\<close>

record collaborators =
  returned :: "collaborator_call list \<Rightarrow> collaborator_call \<Rightarrow> pointer"
  returned_int :: "collaborator_call list \<Rightarrow> collaborator_call \<Rightarrow> gint"
  MONGO_OK :: gint

section \<open>The state of the process\<close>

text \<open>
  The slices of type \<^verbatim>\<open>JSemantics\<close> and of type \<^verbatim>\<open>JStoreIterator\<close> (the slice at address
  \<open>a\<close> is the \<open>a\<close>-th element of its list, \<open>None\<close> once freed), the calls made to the
  collaborators and the messages logged so far, both oldest first.
\<close>

record state =
  slices :: "JSemantics option list"
  iterators :: "JStoreIterator option list"
  calls :: "collaborator_call list"
  messages :: "GLogLevel list"

definition slice_at :: "state \<Rightarrow> nat \<Rightarrow> JSemantics option" where
  "slice_at st a = (if a < length (slices st) then slices st ! a else None)"

definition g_slice_new :: "JSemantics \<Rightarrow> state \<Rightarrow> pointer \<times> state" where
  "g_slice_new obj st = (Addr (length (slices st)), st\<lparr>slices := slices st @ [Some obj]\<rparr>)"

definition g_slice_free :: "nat \<Rightarrow> state \<Rightarrow> state" where
  "g_slice_free a st = st\<lparr>slices := (slices st)[a := None]\<rparr>"

definition slice_store :: "nat \<Rightarrow> JSemantics \<Rightarrow> state \<Rightarrow> state" where
  "slice_store a obj st = st\<lparr>slices := (slices st)[a := Some obj]\<rparr>"

definition g_log :: "GLogLevel \<Rightarrow> state \<Rightarrow> state" where
  "g_log l st = st\<lparr>messages := messages st @ [l]\<rparr>"

section \<open>jsemantics.c\<close>

subsection \<open>j_semantics_new\<close>

text \<open>
  The object is filled in before the \<^verbatim>\<open>switch\<close> with the values of the default template,
  \<^verbatim>\<open>immutable = FALSE\<close> and \<^verbatim>\<open>ref_count = 1\<close>; the \<^verbatim>\<open>switch\<close> then assigns all six
  dimensions anew for POSIX and CHECKPOINT, nothing for DEFAULT, and warns for any other
  value. The model fills the record in and then puts it into a new slice.
\<close>

definition j_semantics_new ::
  "jsemantics_h \<Rightarrow> JSemanticsTemplate \<Rightarrow> state \<Rightarrow> pointer \<times> state" where
  "j_semantics_new H template st =
     (let semantics = \<lparr>atomicity = H J_SEMANTICS_ATOMICITY_NONE,
                       consistency = H J_SEMANTICS_CONSISTENCY_IMMEDIATE,
                       persistency = H J_SEMANTICS_PERSISTENCY_EVENTUAL,
                       concurrency = H J_SEMANTICS_CONCURRENCY_OVERLAPPING,
                       safety = H J_SEMANTICS_SAFETY_NONE,
                       security = H J_SEMANTICS_SECURITY_STRICT,
                       immutable = False,
                       ref_count = 1\<rparr>
      in case template of
           J_SEMANTICS_TEMPLATE_DEFAULT \<Rightarrow> g_slice_new semantics st
         | J_SEMANTICS_TEMPLATE_POSIX \<Rightarrow>
             g_slice_new (semantics\<lparr>atomicity := H J_SEMANTICS_ATOMICITY_OPERATION,
                                     concurrency := H J_SEMANTICS_CONCURRENCY_OVERLAPPING,
                                     consistency := H J_SEMANTICS_CONSISTENCY_IMMEDIATE,
                                     persistency := H J_SEMANTICS_PERSISTENCY_EVENTUAL,
                                     safety := H J_SEMANTICS_SAFETY_NONE,
                                     security := H J_SEMANTICS_SECURITY_STRICT\<rparr>) st
         | J_SEMANTICS_TEMPLATE_CHECKPOINT \<Rightarrow>
             g_slice_new (semantics\<lparr>atomicity := H J_SEMANTICS_ATOMICITY_NONE,
                                     concurrency := H J_SEMANTICS_CONCURRENCY_NON_OVERLAPPING,
                                     consistency := H J_SEMANTICS_CONSISTENCY_EVENTUAL,
                                     persistency := H J_SEMANTICS_PERSISTENCY_EVENTUAL,
                                     safety := H J_SEMANTICS_SAFETY_NONE,
                                     security := H J_SEMANTICS_SECURITY_NONE\<rparr>) st
         | J_SEMANTICS_TEMPLATE_out_of_range \<Rightarrow>
             g_slice_new semantics (g_log G_LOG_LEVEL_WARNING st))"

subsection \<open>j_semantics_ref, j_semantics_unref\<close>

definition j_semantics_ref ::
  "pointer \<Rightarrow> state \<Rightarrow> fault + pointer \<times> state" where
  "j_semantics_ref semantics st =
     (case semantics of
        NULL \<Rightarrow> Inr (NULL, g_log G_LOG_LEVEL_CRITICAL st)
      | Addr a \<Rightarrow>
          (case slice_at st a of
             None \<Rightarrow> Inl InvalidPointer
           | Some s \<Rightarrow>
               (let s1 = s\<lparr>ref_count := ref_count s + 1\<rparr>;
                    s2 = (if \<not> immutable s1 then s1\<lparr>immutable := True\<rparr> else s1)
                in Inr (Addr a, slice_store a s2 st))))"

text \<open>
  \<^verbatim>\<open>g_atomic_int_dec_and_test\<close> decrements and says whether the new value is zero.
\<close>

definition j_semantics_unref :: "pointer \<Rightarrow> state \<Rightarrow> fault + state" where
  "j_semantics_unref semantics st =
     (case semantics of
        NULL \<Rightarrow> Inr (g_log G_LOG_LEVEL_CRITICAL st)
      | Addr a \<Rightarrow>
          (case slice_at st a of
             None \<Rightarrow> Inl InvalidPointer
           | Some s \<Rightarrow>
               (let s1 = s\<lparr>ref_count := ref_count s - 1\<rparr>
                in if ref_count s1 = 0
                   then Inr (g_slice_free a (slice_store a s1 st))
                   else Inr (slice_store a s1 st))))"

subsection \<open>j_semantics_set, j_semantics_get\<close>

definition j_semantics_set ::
  "pointer \<Rightarrow> JSemanticsType \<Rightarrow> gint \<Rightarrow> state \<Rightarrow> fault + state" where
  "j_semantics_set semantics key val st =
     (case semantics of
        NULL \<Rightarrow> Inr (g_log G_LOG_LEVEL_CRITICAL st)
      | Addr a \<Rightarrow>
          (case slice_at st a of
             None \<Rightarrow> Inl InvalidPointer
           | Some s \<Rightarrow>
               if immutable s then Inr (g_log G_LOG_LEVEL_CRITICAL st)
               else (case key of
                 J_SEMANTICS_ATOMICITY \<Rightarrow> Inr (slice_store a (s\<lparr>atomicity := val\<rparr>) st)
               | J_SEMANTICS_CONCURRENCY \<Rightarrow> Inr (slice_store a (s\<lparr>concurrency := val\<rparr>) st)
               | J_SEMANTICS_CONSISTENCY \<Rightarrow> Inr (slice_store a (s\<lparr>consistency := val\<rparr>) st)
               | J_SEMANTICS_PERSISTENCY \<Rightarrow> Inr (slice_store a (s\<lparr>persistency := val\<rparr>) st)
               | J_SEMANTICS_SAFETY \<Rightarrow> Inr (slice_store a (s\<lparr>safety := val\<rparr>) st)
               | J_SEMANTICS_SECURITY \<Rightarrow> Inr (slice_store a (s\<lparr>security := val\<rparr>) st)
               | J_SEMANTICS_out_of_range \<Rightarrow> Inr (g_log G_LOG_LEVEL_WARNING st))))"

definition j_semantics_get ::
  "pointer \<Rightarrow> JSemanticsType \<Rightarrow> state \<Rightarrow> fault + gint \<times> state" where
  "j_semantics_get semantics key st =
     (case semantics of
        NULL \<Rightarrow> Inr (- 1, g_log G_LOG_LEVEL_CRITICAL st)
      | Addr a \<Rightarrow>
          (case slice_at st a of
             None \<Rightarrow> Inl InvalidPointer
           | Some s \<Rightarrow>
               (case key of
                 J_SEMANTICS_ATOMICITY \<Rightarrow> Inr (atomicity s, st)
               | J_SEMANTICS_CONCURRENCY \<Rightarrow> Inr (concurrency s, st)
               | J_SEMANTICS_CONSISTENCY \<Rightarrow> Inr (consistency s, st)
               | J_SEMANTICS_PERSISTENCY \<Rightarrow> Inr (persistency s, st)
               | J_SEMANTICS_SAFETY \<Rightarrow> Inr (safety s, st)
               | J_SEMANTICS_SECURITY \<Rightarrow> Inr (security s, st)
               | J_SEMANTICS_out_of_range \<Rightarrow> Inr (- 1, g_log G_LOG_LEVEL_CRITICAL st))))"

subsection \<open>j_semantics_parse\<close>

text \<open>
  A C string is a \<open>string\<close>, a \<^verbatim>\<open>gchar const*\<close> that may be \<^verbatim>\<open>NULL\<close> a \<open>string option\<close>.
  \<^verbatim>\<open>g_strsplit(s, ",", 0)\<close> cuts \<open>s\<close> at every delimiter, with no limit on the number of
  pieces; the pieces of the empty string are no piece at all, where \<open>split_at_char\<close> alone
  gives one empty piece.
\<close>

fun split_at_char :: "char \<Rightarrow> string \<Rightarrow> string list" where
  "split_at_char d [] = [[]]"
| "split_at_char d (c # cs) =
     (if c = d then [] # split_at_char d cs
      else (case split_at_char d cs of [] \<Rightarrow> [[c]] | t # ts \<Rightarrow> (c # t) # ts))"

definition g_strsplit :: "string \<Rightarrow> char \<Rightarrow> string list" where
  "g_strsplit s d = (if s = [] then [] else split_at_char d s)"

text \<open>
  \<^verbatim>\<open>strchr(s, c)\<close> points to the first \<open>c\<close> in \<open>s\<close>, that is to the rest of \<open>s\<close> from there on,
  or is \<^verbatim>\<open>NULL\<close> when there is none.
\<close>

definition strchr :: "string \<Rightarrow> char \<Rightarrow> string option" where
  "strchr s c = (case dropWhile (\<lambda>x. x \<noteq> c) s of [] \<Rightarrow> None | r # rs \<Rightarrow> Some (r # rs))"

definition g_str_has_prefix :: "string \<Rightarrow> string \<Rightarrow> bool" where
  "g_str_has_prefix s p = (take (length p) s = p)"

text \<open>
  The body of the \<^verbatim>\<open>for\<close> loop, for one element of \<^verbatim>\<open>parts\<close>. \<^verbatim>\<open>value++\<close> steps over the
  \<open>=\<close> that \<^verbatim>\<open>strchr\<close> found; \<^verbatim>\<open>g_strcmp0(value, "batch") == 0\<close> on two strings that are not
  \<^verbatim>\<open>NULL\<close> is their equality.
\<close>

definition parse_part :: "jsemantics_h \<Rightarrow> pointer \<Rightarrow> string \<Rightarrow> state \<Rightarrow> fault + state" where
  "parse_part H semantics part st =
     (case strchr part (CHR ''='') of
        None \<Rightarrow> Inr st
      | Some at_equals \<Rightarrow>
          (let val = tl at_equals in
           if g_str_has_prefix part ''atomicity='' then
             (if val = ''batch'' then
                j_semantics_set semantics J_SEMANTICS_ATOMICITY (H J_SEMANTICS_ATOMICITY_BATCH) st
              else if val = ''operation'' then
                j_semantics_set semantics J_SEMANTICS_ATOMICITY (H J_SEMANTICS_ATOMICITY_OPERATION) st
              else if val = ''none'' then
                j_semantics_set semantics J_SEMANTICS_ATOMICITY (H J_SEMANTICS_ATOMICITY_NONE) st
              else Inr st)
           else if g_str_has_prefix part ''concurrency='' then
             (if val = ''overlapping'' then
                j_semantics_set semantics J_SEMANTICS_CONCURRENCY (H J_SEMANTICS_CONCURRENCY_OVERLAPPING) st
              else if val = ''non-overlapping'' then
                j_semantics_set semantics J_SEMANTICS_CONCURRENCY (H J_SEMANTICS_CONCURRENCY_NON_OVERLAPPING) st
              else if val = ''none'' then
                j_semantics_set semantics J_SEMANTICS_CONCURRENCY (H J_SEMANTICS_CONCURRENCY_NONE) st
              else Inr st)
           else if g_str_has_prefix part ''consistency='' then
             (if val = ''immediate'' then
                j_semantics_set semantics J_SEMANTICS_CONSISTENCY (H J_SEMANTICS_CONSISTENCY_IMMEDIATE) st
              else if val = ''eventual'' then
                j_semantics_set semantics J_SEMANTICS_CONSISTENCY (H J_SEMANTICS_CONSISTENCY_EVENTUAL) st
              else if val = ''none'' then
                j_semantics_set semantics J_SEMANTICS_CONSISTENCY (H J_SEMANTICS_CONSISTENCY_NONE) st
              else Inr st)
           else if g_str_has_prefix part ''persistency='' then
             (if val = ''immediate'' then
                j_semantics_set semantics J_SEMANTICS_PERSISTENCY (H J_SEMANTICS_PERSISTENCY_IMMEDIATE) st
              else if val = ''eventual'' then
                j_semantics_set semantics J_SEMANTICS_PERSISTENCY (H J_SEMANTICS_PERSISTENCY_EVENTUAL) st
              else if val = ''none'' then
                j_semantics_set semantics J_SEMANTICS_PERSISTENCY (H J_SEMANTICS_PERSISTENCY_NONE) st
              else Inr st)
           else if g_str_has_prefix part ''safety='' then
             (if val = ''storage'' then
                j_semantics_set semantics J_SEMANTICS_SAFETY (H J_SEMANTICS_SAFETY_STORAGE) st
              else if val = ''network'' then
                j_semantics_set semantics J_SEMANTICS_SAFETY (H J_SEMANTICS_SAFETY_NETWORK) st
              else if val = ''none'' then
                j_semantics_set semantics J_SEMANTICS_SAFETY (H J_SEMANTICS_SAFETY_NONE) st
              else Inr st)
           else if g_str_has_prefix part ''security='' then
             (if val = ''strict'' then
                j_semantics_set semantics J_SEMANTICS_SECURITY (H J_SEMANTICS_SECURITY_STRICT) st
              else if val = ''none'' then
                j_semantics_set semantics J_SEMANTICS_SECURITY (H J_SEMANTICS_SECURITY_NONE) st
              else Inr st)
           else Inr st))"

text \<open>The \<^verbatim>\<open>for\<close> loop over \<^verbatim>\<open>parts\<close>, first element first.\<close>

fun parse_parts :: "jsemantics_h \<Rightarrow> pointer \<Rightarrow> string list \<Rightarrow> state \<Rightarrow> fault + state" where
  "parse_parts H semantics [] st = Inr st"
| "parse_parts H semantics (part # parts) st =
     (case parse_part H semantics part st of
        Inl f \<Rightarrow> Inl f
      | Inr st' \<Rightarrow> parse_parts H semantics parts st')"

text \<open>
  \<^verbatim>\<open>g_strcmp0(template_str, "posix") == 0\<close> holds when \<^verbatim>\<open>template_str\<close> is not \<^verbatim>\<open>NULL\<close> and
  is that string.
\<close>

definition j_semantics_parse ::
  "jsemantics_h \<Rightarrow> string option \<Rightarrow> string option \<Rightarrow> state \<Rightarrow> fault + pointer \<times> state" where
  "j_semantics_parse H template_str semantics_str st =
     (case (if template_str = Some ''posix'' then
              j_semantics_new H J_SEMANTICS_TEMPLATE_POSIX st
            else if template_str = Some ''checkpoint'' then
              j_semantics_new H J_SEMANTICS_TEMPLATE_CHECKPOINT st
            else
              j_semantics_new H J_SEMANTICS_TEMPLATE_DEFAULT st) of
        (semantics, st1) \<Rightarrow>
          (case semantics_str of
             None \<Rightarrow> Inr (semantics, st1)
           | Some str \<Rightarrow>
               (case parse_parts H semantics (g_strsplit str (CHR '','')) st1 of
                  Inl f \<Rightarrow> Inl f
                | Inr st2 \<Rightarrow> Inr (semantics, st2))))"

subsection \<open>Sequences of calls\<close>

text \<open>
  A client of the module makes calls one after the other; a fault ends the run. The values
  that \<open>j_semantics_new\<close>, \<open>j_semantics_ref\<close>, \<open>j_semantics_get\<close> and \<open>j_semantics_parse\<close>
  return are dropped here, the state is kept.
\<close>

datatype semantics_call =
    Call_new JSemanticsTemplate
  | Call_ref pointer
  | Call_unref pointer
  | Call_set pointer JSemanticsType gint
  | Call_get pointer JSemanticsType
  | Call_parse "string option" "string option"

fun do_call :: "jsemantics_h \<Rightarrow> semantics_call \<Rightarrow> state \<Rightarrow> fault + state" where
  "do_call H (Call_new template) st = Inr (snd (j_semantics_new H template st))"
| "do_call H (Call_ref p) st = map_sum id snd (j_semantics_ref p st)"
| "do_call H (Call_unref p) st = j_semantics_unref p st"
| "do_call H (Call_set p key val) st = j_semantics_set p key val st"
| "do_call H (Call_get p key) st = map_sum id snd (j_semantics_get p key st)"
| "do_call H (Call_parse t s) st = map_sum id snd (j_semantics_parse H t s st)"

fun do_calls :: "jsemantics_h \<Rightarrow> semantics_call list \<Rightarrow> state \<Rightarrow> fault + state" where
  "do_calls H [] st = Inr st"
| "do_calls H (c # cs) st =
     (case do_call H c st of
        Inl f \<Rightarrow> Inl f
      | Inr st' \<Rightarrow> do_calls H cs st')"

subsection \<open>The override grammar in the words of the specification\<close>

text \<open>
  The specification describes the override string without reference to the code: it is split
  on commas; a token without \<open>=\<close> is ignored; in a token \<open>key=value\<close> the key is compared,
  case-sensitively, with the six dimension names, and the value with the value names of that
  dimension; an unknown key or value changes nothing; the tokens are applied from left to
  right. The key is the text before the first \<open>=\<close>, the value the text after it.
\<close>

definition spec_dimension :: "string \<Rightarrow> JSemanticsType option" where
  "spec_dimension k =
     (if k = ''atomicity'' then Some J_SEMANTICS_ATOMICITY
      else if k = ''concurrency'' then Some J_SEMANTICS_CONCURRENCY
      else if k = ''consistency'' then Some J_SEMANTICS_CONSISTENCY
      else if k = ''persistency'' then Some J_SEMANTICS_PERSISTENCY
      else if k = ''safety'' then Some J_SEMANTICS_SAFETY
      else if k = ''security'' then Some J_SEMANTICS_SECURITY
      else None)"

fun spec_value :: "JSemanticsType \<Rightarrow> string \<Rightarrow> JSemanticsEnumerator option" where
  "spec_value J_SEMANTICS_ATOMICITY v =
     (if v = ''batch'' then Some J_SEMANTICS_ATOMICITY_BATCH
      else if v = ''operation'' then Some J_SEMANTICS_ATOMICITY_OPERATION
      else if v = ''none'' then Some J_SEMANTICS_ATOMICITY_NONE else None)"
| "spec_value J_SEMANTICS_CONCURRENCY v =
     (if v = ''overlapping'' then Some J_SEMANTICS_CONCURRENCY_OVERLAPPING
      else if v = ''non-overlapping'' then Some J_SEMANTICS_CONCURRENCY_NON_OVERLAPPING
      else if v = ''none'' then Some J_SEMANTICS_CONCURRENCY_NONE else None)"
| "spec_value J_SEMANTICS_CONSISTENCY v =
     (if v = ''immediate'' then Some J_SEMANTICS_CONSISTENCY_IMMEDIATE
      else if v = ''eventual'' then Some J_SEMANTICS_CONSISTENCY_EVENTUAL
      else if v = ''none'' then Some J_SEMANTICS_CONSISTENCY_NONE else None)"
| "spec_value J_SEMANTICS_PERSISTENCY v =
     (if v = ''immediate'' then Some J_SEMANTICS_PERSISTENCY_IMMEDIATE
      else if v = ''eventual'' then Some J_SEMANTICS_PERSISTENCY_EVENTUAL
      else if v = ''none'' then Some J_SEMANTICS_PERSISTENCY_NONE else None)"
| "spec_value J_SEMANTICS_SAFETY v =
     (if v = ''storage'' then Some J_SEMANTICS_SAFETY_STORAGE
      else if v = ''network'' then Some J_SEMANTICS_SAFETY_NETWORK
      else if v = ''none'' then Some J_SEMANTICS_SAFETY_NONE else None)"
| "spec_value J_SEMANTICS_SECURITY v =
     (if v = ''strict'' then Some J_SEMANTICS_SECURITY_STRICT
      else if v = ''none'' then Some J_SEMANTICS_SECURITY_NONE else None)"
| "spec_value J_SEMANTICS_out_of_range v = None"

fun spec_set :: "JSemanticsType \<Rightarrow> gint \<Rightarrow> JSemantics \<Rightarrow> JSemantics" where
  "spec_set J_SEMANTICS_ATOMICITY v d = d\<lparr>atomicity := v\<rparr>"
| "spec_set J_SEMANTICS_CONCURRENCY v d = d\<lparr>concurrency := v\<rparr>"
| "spec_set J_SEMANTICS_CONSISTENCY v d = d\<lparr>consistency := v\<rparr>"
| "spec_set J_SEMANTICS_PERSISTENCY v d = d\<lparr>persistency := v\<rparr>"
| "spec_set J_SEMANTICS_SAFETY v d = d\<lparr>safety := v\<rparr>"
| "spec_set J_SEMANTICS_SECURITY v d = d\<lparr>security := v\<rparr>"
| "spec_set J_SEMANTICS_out_of_range v d = d"

definition spec_token :: "jsemantics_h \<Rightarrow> JSemantics \<Rightarrow> string \<Rightarrow> JSemantics" where
  "spec_token H d tok =
     (if CHR ''='' \<notin> set tok then d
      else (case spec_dimension (takeWhile (\<lambda>c. c \<noteq> CHR ''='') tok) of
              None \<Rightarrow> d
            | Some k \<Rightarrow>
                (case spec_value k (tl (dropWhile (\<lambda>c. c \<noteq> CHR ''='') tok)) of
                   None \<Rightarrow> d
                 | Some e \<Rightarrow> spec_set k (H e) d)))"

definition spec_overrides :: "jsemantics_h \<Rightarrow> string \<Rightarrow> JSemantics \<Rightarrow> JSemantics" where
  "spec_overrides H s d = foldl (spec_token H) d (split_at_char (CHR '','') s)"

text \<open>The table of the three templates, as the specification gives it.\<close>

definition spec_default :: "jsemantics_h \<Rightarrow> JSemantics" where
  "spec_default H =
     \<lparr>atomicity = H J_SEMANTICS_ATOMICITY_NONE,
      consistency = H J_SEMANTICS_CONSISTENCY_IMMEDIATE,
      persistency = H J_SEMANTICS_PERSISTENCY_EVENTUAL,
      concurrency = H J_SEMANTICS_CONCURRENCY_OVERLAPPING,
      safety = H J_SEMANTICS_SAFETY_NONE,
      security = H J_SEMANTICS_SECURITY_STRICT,
      immutable = False, ref_count = 1\<rparr>"

definition spec_posix :: "jsemantics_h \<Rightarrow> JSemantics" where
  "spec_posix H = (spec_default H)\<lparr>atomicity := H J_SEMANTICS_ATOMICITY_OPERATION\<rparr>"

definition spec_checkpoint :: "jsemantics_h \<Rightarrow> JSemantics" where
  "spec_checkpoint H =
     (spec_default H)\<lparr>concurrency := H J_SEMANTICS_CONCURRENCY_NON_OVERLAPPING,
                      consistency := H J_SEMANTICS_CONSISTENCY_EVENTUAL,
                      security := H J_SEMANTICS_SECURITY_NONE\<rparr>"

definition spec_template :: "jsemantics_h \<Rightarrow> string option \<Rightarrow> JSemantics" where
  "spec_template H name =
     (if name = Some ''posix'' then spec_posix H
      else if name = Some ''checkpoint'' then spec_checkpoint H
      else spec_default H)"

text \<open>
  One numbering of the enumerators, for the examples that need a concrete one: each
  enumeration counts from 0 in the order in which \<open>j_semantics_parse\<close> names its values.
\<close>

fun example_numbering :: jsemantics_h where
  "example_numbering J_SEMANTICS_ATOMICITY_BATCH = 0"
| "example_numbering J_SEMANTICS_ATOMICITY_OPERATION = 1"
| "example_numbering J_SEMANTICS_ATOMICITY_NONE = 2"
| "example_numbering J_SEMANTICS_CONCURRENCY_OVERLAPPING = 0"
| "example_numbering J_SEMANTICS_CONCURRENCY_NON_OVERLAPPING = 1"
| "example_numbering J_SEMANTICS_CONCURRENCY_NONE = 2"
| "example_numbering J_SEMANTICS_CONSISTENCY_IMMEDIATE = 0"
| "example_numbering J_SEMANTICS_CONSISTENCY_EVENTUAL = 1"
| "example_numbering J_SEMANTICS_CONSISTENCY_NONE = 2"
| "example_numbering J_SEMANTICS_PERSISTENCY_IMMEDIATE = 0"
| "example_numbering J_SEMANTICS_PERSISTENCY_EVENTUAL = 1"
| "example_numbering J_SEMANTICS_PERSISTENCY_NONE = 2"
| "example_numbering J_SEMANTICS_SAFETY_STORAGE = 0"
| "example_numbering J_SEMANTICS_SAFETY_NETWORK = 1"
| "example_numbering J_SEMANTICS_SAFETY_NONE = 2"
| "example_numbering J_SEMANTICS_SECURITY_STRICT = 0"
| "example_numbering J_SEMANTICS_SECURITY_NONE = 1"

definition empty_state :: state where
  "empty_state = \<lparr>slices = [], iterators = [], calls = [], messages = []\<rparr>"

section \<open>jstore-iterator.c\<close>

definition iterator_at :: "state \<Rightarrow> nat \<Rightarrow> JStoreIterator option" where
  "iterator_at st a = (if a < length (iterators st) then iterators st ! a else None)"

definition g_slice_new_iterator :: "JStoreIterator \<Rightarrow> state \<Rightarrow> pointer \<times> state" where
  "g_slice_new_iterator obj st =
     (Addr (length (iterators st)), st\<lparr>iterators := iterators st @ [Some obj]\<rparr>)"

definition g_slice_free_iterator :: "nat \<Rightarrow> state \<Rightarrow> state" where
  "g_slice_free_iterator a st = st\<lparr>iterators := (iterators st)[a := None]\<rparr>"

text \<open>A call to a collaborator is recorded; what it returns is taken from \<open>W\<close>.\<close>

definition call_void :: "collaborator_call \<Rightarrow> state \<Rightarrow> state" where
  "call_void c st = st\<lparr>calls := calls st @ [c]\<rparr>"

definition call_pointer :: "collaborators \<Rightarrow> collaborator_call \<Rightarrow> state \<Rightarrow> pointer \<times> state" where
  "call_pointer W c st = (returned W (calls st) c, call_void c st)"

definition call_int :: "collaborators \<Rightarrow> collaborator_call \<Rightarrow> state \<Rightarrow> gint \<times> state" where
  "call_int W c st = (returned_int W (calls st) c, call_void c st)"

subsection \<open>j_store_iterator_new\<close>

text \<open>
  The statements of the function in their order; the arguments of \<^verbatim>\<open>mongo_find\<close> are
  evaluated before it is called. The object is filled in and then put into a new slice.
\<close>

definition j_store_iterator_new :: "collaborators \<Rightarrow> pointer \<Rightarrow> state \<Rightarrow> pointer \<times> state" where
  "j_store_iterator_new W store_arg st =
     (case store_arg of
        NULL \<Rightarrow> (NULL, g_log G_LOG_LEVEL_CRITICAL st)
      | Addr s \<Rightarrow>
          (let st1 = call_void J_operation_cache_flush st in
           case call_pointer W (J_store_ref (Addr s)) st1 of (store_ref, st2) \<Rightarrow>
           case call_pointer W (J_connection_pool_pop_meta 0) st2 of (conn, st3) \<Rightarrow>
           case call_pointer W Bson_shared_empty st3 of (empty_query, st4) \<Rightarrow>
           case call_pointer W (J_store_collection_collections store_ref) st4 of (ns, st5) \<Rightarrow>
           case call_pointer W (Mongo_find conn ns empty_query NULL 0 0 0) st5 of (cur, st6) \<Rightarrow>
             g_slice_new_iterator \<lparr>connection = conn, store = store_ref, cursor = cur\<rparr> st6))"

subsection \<open>j_store_iterator_free\<close>

definition j_store_iterator_free :: "pointer \<Rightarrow> state \<Rightarrow> fault + state" where
  "j_store_iterator_free iterator st =
     (case iterator of
        NULL \<Rightarrow> Inr (g_log G_LOG_LEVEL_CRITICAL st)
      | Addr a \<Rightarrow>
          (case iterator_at st a of
             None \<Rightarrow> Inl InvalidPointer
           | Some it \<Rightarrow>
               (let st1 = call_void (Mongo_cursor_destroy (cursor it)) st;
                    st2 = call_void (J_connection_pool_push_meta 0 (connection it)) st1;
                    st3 = call_void (J_store_unref (store it)) st2
                in Inr (g_slice_free_iterator a st3))))"

subsection \<open>j_store_iterator_next, j_store_iterator_get\<close>

definition j_store_iterator_next ::
  "collaborators \<Rightarrow> pointer \<Rightarrow> state \<Rightarrow> fault + bool \<times> state" where
  "j_store_iterator_next W iterator st =
     (case iterator of
        NULL \<Rightarrow> Inr (False, g_log G_LOG_LEVEL_CRITICAL st)
      | Addr a \<Rightarrow>
          (case iterator_at st a of
             None \<Rightarrow> Inl InvalidPointer
           | Some it \<Rightarrow>
               (case call_int W (Mongo_cursor_next (cursor it)) st of
                  (r, st1) \<Rightarrow> Inr (r = MONGO_OK W, st1))))"

definition j_store_iterator_get ::
  "collaborators \<Rightarrow> pointer \<Rightarrow> state \<Rightarrow> fault + pointer \<times> state" where
  "j_store_iterator_get W iterator st =
     (case iterator of
        NULL \<Rightarrow> Inr (NULL, g_log G_LOG_LEVEL_CRITICAL st)
      | Addr a \<Rightarrow>
          (case iterator_at st a of
             None \<Rightarrow> Inl InvalidPointer
           | Some it \<Rightarrow>
               (case call_pointer W (Mongo_cursor_bson (cursor it)) st of (b, st1) \<Rightarrow>
                case call_pointer W (J_collection_new_from_bson (store it) b) st1 of
                  (collection, st2) \<Rightarrow> Inr (collection, st2))))"

subsection \<open>Collaborators for the examples\<close>

text \<open>
  The calls by which an iterator gives something back: the cursor, the connection, the
  reference to the store.
\<close>

definition is_release :: "collaborator_call \<Rightarrow> bool" where
  "is_release c =
     (case c of
        Mongo_cursor_destroy p \<Rightarrow> True
      | J_connection_pool_push_meta i p \<Rightarrow> True
      | J_store_unref p \<Rightarrow> True
      | _ \<Rightarrow> False)"

text \<open>
  One set of collaborators, for the examples that need a concrete one: \<^verbatim>\<open>j_store_ref\<close>
  returns the store, the pool hands out the connection at address 7, the empty BSON object is
  at address 8, the namespace string at address 9, and every other call, \<^verbatim>\<open>mongo_find\<close>
  among them, returns \<^verbatim>\<open>NULL\<close>.
\<close>

fun find_fails :: "collaborator_call list \<Rightarrow> collaborator_call \<Rightarrow> pointer" where
  "find_fails h (J_store_ref p) = p"
| "find_fails h (J_connection_pool_pop_meta i) = Addr 7"
| "find_fails h Bson_shared_empty = Addr 8"
| "find_fails h (J_store_collection_collections p) = Addr 9"
| "find_fails h c = NULL"

definition example_collaborators :: collaborators where
  "example_collaborators = \<lparr>returned = find_fails, returned_int = (\<lambda>h c. 1), MONGO_OK = 0\<rparr>"


section \<open>Lemmas about the slices and the strings\<close>

lemma slice_at_store: "slice_at (slice_store a d st) b =
   (if b = a \<and> a < length (slices st) then Some d else slice_at st b)"
  by (simp add: slice_at_def slice_store_def)

lemma slice_at_log: "slice_at (g_log l st) a = slice_at st a"
  by (simp add: slice_at_def g_log_def)

lemma slice_at_free: "slice_at (g_slice_free a st) b = (if b = a then None else slice_at st b)"
  by (simp add: slice_at_def g_slice_free_def)

lemma slice_at_new: "slice_at (snd (g_slice_new d st)) b =
   (if b = length (slices st) then Some d else slice_at st b)"
  by (simp add: slice_at_def g_slice_new_def nth_append)

lemma slice_at_Some_less: "slice_at st a = Some d \<Longrightarrow> a < length (slices st)"
  by (simp add: slice_at_def split: if_splits)

lemma slice_store_same: "slice_at st a = Some d \<Longrightarrow> slice_store a d st = st"
  by (simp add: slice_at_def slice_store_def list_update_same_conv split: if_splits)

lemma slice_store_twice: "slice_store a d (slice_store a e st) = slice_store a d st"
  by (simp add: slice_store_def)

lemma strchr_None: "strchr s c = None \<longleftrightarrow> c \<notin> set s"
  by (induction s) (auto simp: strchr_def split: list.splits)

lemma strchr_Some: "c \<in> set s \<Longrightarrow> strchr s c = Some (dropWhile (\<lambda>x. x \<noteq> c) s)"
  by (induction s) (auto simp: strchr_def split: list.splits)

lemma takeWhile_key: "c \<notin> set key \<Longrightarrow> takeWhile (\<lambda>x. x \<noteq> c) (key @ c # r) = key"
  by (induction key) auto

lemma has_prefix_key:
  assumes "c \<notin> set key"
  shows "g_str_has_prefix s (key @ [c]) \<longleftrightarrow> c \<in> set s \<and> takeWhile (\<lambda>x. x \<noteq> c) s = key"
proof
  assume "g_str_has_prefix s (key @ [c])"
  then have t: "take (length key + 1) s = key @ [c]" by (simp add: g_str_has_prefix_def)
  have "s = take (length key + 1) s @ drop (length key + 1) s" by simp
  with t have s: "s = key @ c # drop (length key + 1) s" by simp
  have "c \<in> set s" by (subst s) simp
  moreover have "takeWhile (\<lambda>x. x \<noteq> c) s = key"
    by (subst s) (rule takeWhile_key [OF assms])
  ultimately show "c \<in> set s \<and> takeWhile (\<lambda>x. x \<noteq> c) s = key" ..
next
  assume a: "c \<in> set s \<and> takeWhile (\<lambda>x. x \<noteq> c) s = key"
  then have ne: "dropWhile (\<lambda>x. x \<noteq> c) s \<noteq> []" by simp
  then have "hd (dropWhile (\<lambda>x. x \<noteq> c) s) = c"
    using hd_dropWhile [of "\<lambda>x. x \<noteq> c" s] by simp
  with ne have r: "dropWhile (\<lambda>x. x \<noteq> c) s = c # tl (dropWhile (\<lambda>x. x \<noteq> c) s)"
    by (cases "dropWhile (\<lambda>x. x \<noteq> c) s") simp_all
  have "s = takeWhile (\<lambda>x. x \<noteq> c) s @ dropWhile (\<lambda>x. x \<noteq> c) s" by simp
  with a r have "s = key @ c # tl (dropWhile (\<lambda>x. x \<noteq> c) s)" by simp
  then have "take (length (key @ [c])) s = take (length (key @ [c])) (key @ c # tl (dropWhile (\<lambda>x. x \<noteq> c) s))"
    by simp
  then show "g_str_has_prefix s (key @ [c])"
    by (simp add: g_str_has_prefix_def)
qed

lemmas prefix_keys =
  has_prefix_key [of "CHR ''=''" "''atomicity''", simplified]
  has_prefix_key [of "CHR ''=''" "''concurrency''", simplified]
  has_prefix_key [of "CHR ''=''" "''consistency''", simplified]
  has_prefix_key [of "CHR ''=''" "''persistency''", simplified]
  has_prefix_key [of "CHR ''=''" "''safety''", simplified]
  has_prefix_key [of "CHR ''=''" "''security''", simplified]

lemma spec_set_immutable: "immutable (spec_set k v d) = immutable d"
  by (cases k) simp_all

lemma spec_set_ref_count: "ref_count (spec_set k v d) = ref_count d"
  by (cases k) simp_all

lemma spec_token_immutable: "immutable (spec_token H d tok) = immutable d"
  by (simp add: spec_token_def spec_set_immutable split: option.splits)

lemma spec_token_ref_count: "ref_count (spec_token H d tok) = ref_count d"
  by (simp add: spec_token_def spec_set_ref_count split: option.splits)

lemma set_mutable:
  "slice_at st a = Some d \<Longrightarrow> \<not> immutable d \<Longrightarrow>
   j_semantics_set (Addr a) k v st =
     Inr (if k = J_SEMANTICS_out_of_range then g_log G_LOG_LEVEL_WARNING st
          else slice_store a (spec_set k v d) st)"
  by (cases k) (simp_all add: j_semantics_set_def)

lemma strchr_absent: "c \<notin> set s \<Longrightarrow> strchr s c = None"
  by (simp add: strchr_None)

lemma parse_part_no_equals:
  "CHR ''='' \<notin> set tok \<Longrightarrow> parse_part H p tok st = Inr st"
  by (simp add: parse_part_def strchr_absent)

lemma parse_part_spec:
  assumes "slice_at st a = Some d" "\<not> immutable d"
  shows "parse_part H (Addr a) tok st = Inr (slice_store a (spec_token H d tok) st)"
proof (cases "CHR ''='' \<in> set tok")
  case False
  then show ?thesis
    using assms by (simp add: parse_part_no_equals spec_token_def slice_store_same)
next
  case True
  define key where "key = takeWhile (\<lambda>c. c \<noteq> CHR ''='') tok"
  note defs = parse_part_def spec_token_def strchr_Some prefix_keys spec_dimension_def
        set_mutable slice_store_same key_def [symmetric]
  consider "key = ''atomicity''" | "key = ''concurrency''" | "key = ''consistency''"
    | "key = ''persistency''" | "key = ''safety''" | "key = ''security''"
    | "key \<noteq> ''atomicity''" "key \<noteq> ''concurrency''" "key \<noteq> ''consistency''"
      "key \<noteq> ''persistency''" "key \<noteq> ''safety''" "key \<noteq> ''security''"
    by blast
  then show ?thesis
  proof cases
    case 1
    with True assms show ?thesis by (simp add: defs)
  next
    case 2
    with True assms show ?thesis by (simp add: defs)
  next
    case 3
    with True assms show ?thesis by (simp add: defs)
  next
    case 4
    with True assms show ?thesis by (simp add: defs)
  next
    case 5
    with True assms show ?thesis by (simp add: defs)
  next
    case 6
    with True assms show ?thesis by (simp add: defs)
  next
    case 7
    with True assms show ?thesis by (simp add: defs)
  qed
qed

lemma parse_parts_spec:
  "slice_at st a = Some d \<Longrightarrow> \<not> immutable d \<Longrightarrow>
   parse_parts H (Addr a) toks st = Inr (slice_store a (foldl (spec_token H) d toks) st)"
proof (induction toks arbitrary: st d)
  case Nil
  then show ?case by (simp add: slice_store_same)
next
  case (Cons tok toks)
  let ?d = "spec_token H d tok"
  have "slice_at (slice_store a ?d st) a = Some ?d"
    using Cons.prems(1) by (simp add: slice_at_store slice_at_Some_less)
  moreover have "\<not> immutable ?d"
    using Cons.prems(2) by (simp add: spec_token_immutable)
  ultimately have "parse_parts H (Addr a) toks (slice_store a ?d st) =
      Inr (slice_store a (foldl (spec_token H) ?d toks) (slice_store a ?d st))"
    by (rule Cons.IH)
  then show ?case
    using Cons.prems by (simp add: parse_part_spec slice_store_twice)
qed

lemma spec_token_empty: "spec_token H d [] = d"
  by (simp add: spec_token_def)

lemma g_strsplit_spec:
  "foldl (spec_token H) d (g_strsplit s c) = foldl (spec_token H) d (split_at_char c s)"
  by (simp add: g_strsplit_def spec_token_empty)

lemma new_as_slice:
  "j_semantics_new H J_SEMANTICS_TEMPLATE_DEFAULT st = g_slice_new (spec_default H) st"
  "j_semantics_new H J_SEMANTICS_TEMPLATE_POSIX st = g_slice_new (spec_posix H) st"
  "j_semantics_new H J_SEMANTICS_TEMPLATE_CHECKPOINT st = g_slice_new (spec_checkpoint H) st"
  "j_semantics_new H J_SEMANTICS_TEMPLATE_out_of_range st =
     g_slice_new (spec_default H) (g_log G_LOG_LEVEL_WARNING st)"
  by (simp_all add: j_semantics_new_def spec_default_def spec_posix_def spec_checkpoint_def)

lemma parse_template:
  "(if t = Some ''posix'' then j_semantics_new H J_SEMANTICS_TEMPLATE_POSIX st
    else if t = Some ''checkpoint'' then j_semantics_new H J_SEMANTICS_TEMPLATE_CHECKPOINT st
    else j_semantics_new H J_SEMANTICS_TEMPLATE_DEFAULT st) = g_slice_new (spec_template H t) st"
  by (simp add: new_as_slice spec_template_def)

lemma spec_template_mutable: "\<not> immutable (spec_template H t)"
  by (simp add: spec_template_def spec_default_def spec_posix_def spec_checkpoint_def)

lemma store_new: "slice_store (length (slices st)) e (snd (g_slice_new d st)) = snd (g_slice_new e st)"
  by (simp add: slice_store_def g_slice_new_def)

lemma parse_overrides:
  "j_semantics_parse H t (Some s) st =
     Inr (g_slice_new (spec_overrides H s (spec_template H t)) st)"
proof -
  obtain st1 where st1: "g_slice_new (spec_template H t) st = (Addr (length (slices st)), st1)"
    by (simp add: g_slice_new_def)
  then have "slice_at st1 (length (slices st)) = Some (spec_template H t)"
    using slice_at_new [of "spec_template H t" st "length (slices st)"] by simp
  then have "parse_parts H (Addr (length (slices st))) (g_strsplit s (CHR '','')) st1 =
      Inr (slice_store (length (slices st))
            (foldl (spec_token H) (spec_template H t) (g_strsplit s (CHR '',''))) st1)"
    using spec_template_mutable by (rule parse_parts_spec)
  moreover have "slice_store (length (slices st)) e st1 = snd (g_slice_new e st)" for e
    using store_new [of st e "spec_template H t"] st1 by simp
  ultimately show ?thesis
    unfolding j_semantics_parse_def parse_template st1
    by (simp add: g_strsplit_spec spec_overrides_def g_slice_new_def)
qed

lemma parse_no_overrides:
  "j_semantics_parse H t None st = Inr (g_slice_new (spec_template H t) st)"
  unfolding j_semantics_parse_def parse_template by (simp split: prod.splits)


lemma slices_log: "slices (g_log l st) = slices st"
  by (simp add: g_log_def)

lemma free_store: "g_slice_free a (slice_store a d st) = g_slice_free a st"
  by (simp add: g_slice_free_def slice_store_def)

lemma length_store: "length (slices (slice_store a d st)) = length (slices st)"
  by (simp add: slice_store_def)

lemma length_free: "length (slices (g_slice_free a st)) = length (slices st)"
  by (simp add: g_slice_free_def)

lemma length_new: "length (slices (snd (g_slice_new d st))) = Suc (length (slices st))"
  by (simp add: g_slice_new_def)

lemma ref_live:
  "slice_at st a = Some d \<Longrightarrow>
   j_semantics_ref (Addr a) st =
     Inr (Addr a, slice_store a (d\<lparr>ref_count := ref_count d + 1, immutable := True\<rparr>) st)"
  by (cases d) (simp add: j_semantics_ref_def Let_def)

lemma unref_live:
  "slice_at st a = Some d \<Longrightarrow>
   j_semantics_unref (Addr a) st =
     Inr (if ref_count d - 1 = 0 then g_slice_free a st
          else slice_store a (d\<lparr>ref_count := ref_count d - 1\<rparr>) st)"
  by (simp add: j_semantics_unref_def Let_def free_store)

lemma set_immutable:
  "slice_at st a = Some d \<Longrightarrow> immutable d \<Longrightarrow>
   j_semantics_set (Addr a) k v st = Inr (g_log G_LOG_LEVEL_CRITICAL st)"
  by (simp add: j_semantics_set_def)

lemma dead_faults:
  "slice_at st a = None \<Longrightarrow> j_semantics_ref (Addr a) st = Inl InvalidPointer"
  "slice_at st a = None \<Longrightarrow> j_semantics_unref (Addr a) st = Inl InvalidPointer"
  "slice_at st a = None \<Longrightarrow> j_semantics_set (Addr a) k v st = Inl InvalidPointer"
  "slice_at st a = None \<Longrightarrow> j_semantics_get (Addr a) k st = Inl InvalidPointer"
  by (simp_all add: j_semantics_ref_def j_semantics_unref_def j_semantics_set_def
      j_semantics_get_def)

text \<open>What each function does to the slice at an address \<open>a\<close>.\<close>

lemma ref_slice_at:
  assumes "j_semantics_ref p st = Inr (q, st')"
  shows "slice_at st' a =
     (if p = Addr a
      then map_option (\<lambda>d. d\<lparr>ref_count := ref_count d + 1, immutable := True\<rparr>) (slice_at st a)
      else slice_at st a)"
proof (cases p)
  case NULL
  with assms show ?thesis by (auto simp: j_semantics_ref_def slice_at_log)
next
  case (Addr b)
  show ?thesis
  proof (cases "slice_at st b")
    case None
    with assms Addr show ?thesis by (simp add: dead_faults)
  next
    case (Some e)
    then have "b < length (slices st)" by (rule slice_at_Some_less)
    with Some assms Addr show ?thesis
      by (cases "b = a") (auto simp: ref_live slice_at_store)
  qed
qed

lemma unref_slice_at:
  assumes "j_semantics_unref p st = Inr st'"
  shows "slice_at st' a =
     (if p = Addr a
      then (case slice_at st a of None \<Rightarrow> None
            | Some d \<Rightarrow> if ref_count d - 1 = 0 then None
                        else Some (d\<lparr>ref_count := ref_count d - 1\<rparr>))
      else slice_at st a)"
proof (cases p)
  case NULL
  with assms show ?thesis by (auto simp: j_semantics_unref_def slice_at_log)
next
  case (Addr b)
  show ?thesis
  proof (cases "slice_at st b")
    case None
    with assms Addr show ?thesis by (simp add: dead_faults)
  next
    case (Some e)
    then have "b < length (slices st)" by (rule slice_at_Some_less)
    with Some assms Addr show ?thesis
      by (cases "b = a"; cases "ref_count e - 1 = 0")
         (auto simp: unref_live slice_at_store slice_at_free)
  qed
qed

lemma set_slice_at:
  assumes "j_semantics_set p k v st = Inr st'"
  shows "slice_at st' a =
     (if p = Addr a
      then (case slice_at st a of None \<Rightarrow> None
            | Some d \<Rightarrow> if immutable d then Some d else Some (spec_set k v d))
      else slice_at st a)"
proof (cases p)
  case NULL
  with assms show ?thesis by (auto simp: j_semantics_set_def slice_at_log)
next
  case (Addr b)
  show ?thesis
  proof (cases "slice_at st b")
    case None
    with assms Addr show ?thesis by (simp add: dead_faults)
  next
    case (Some e)
    show ?thesis
    proof (cases "immutable e")
      case True
      with Some assms Addr show ?thesis
        by (auto simp: set_immutable slice_at_log)
    next
      case False
      moreover have "b < length (slices st)" using Some by (rule slice_at_Some_less)
      ultimately show ?thesis using Some assms Addr
        by (cases "b = a"; cases "k = J_SEMANTICS_out_of_range")
           (auto simp: set_mutable slice_at_log slice_at_store)
    qed
  qed
qed

lemma get_slice_at:
  assumes "j_semantics_get p k st = Inr (v, st')"
  shows "slice_at st' a = slice_at st a"
proof (cases p)
  case NULL
  with assms show ?thesis by (auto simp: j_semantics_get_def slice_at_log)
next
  case (Addr b)
  show ?thesis
  proof (cases "slice_at st b")
    case None
    with assms Addr show ?thesis by (simp add: dead_faults)
  next
    case (Some e)
    with assms Addr show ?thesis
      by (cases k) (auto simp: j_semantics_get_def slice_at_log)
  qed
qed

lemma new_slice_at:
  "slice_at (snd (j_semantics_new H T st)) a =
     (if a = length (slices st) then slice_at (snd (j_semantics_new H T st)) a else slice_at st a)"
  by (cases T) (simp_all add: new_as_slice slice_at_new slices_log slice_at_log)

lemma parse_slice_at:
  assumes "j_semantics_parse H t s st = Inr (p, st')" "a \<noteq> length (slices st)"
  shows "slice_at st' a = slice_at st a"
  using assms by (cases s) (auto simp: parse_no_overrides parse_overrides slice_at_def g_slice_new_def nth_append)

lemma ref_length:
  assumes "j_semantics_ref p st = Inr (q, st')"
  shows "length (slices st') = length (slices st)"
proof (cases p)
  case NULL
  with assms show ?thesis by (auto simp: j_semantics_ref_def slices_log)
next
  case (Addr b)
  with assms show ?thesis
    by (cases "slice_at st b") (auto simp: dead_faults ref_live length_store)
qed

lemma unref_length:
  assumes "j_semantics_unref p st = Inr st'"
  shows "length (slices st') = length (slices st)"
proof (cases p)
  case NULL
  with assms show ?thesis by (auto simp: j_semantics_unref_def slices_log)
next
  case (Addr b)
  with assms show ?thesis
    by (cases "slice_at st b")
       (auto simp: dead_faults unref_live length_store length_free split: if_splits)
qed

lemma set_length:
  assumes "j_semantics_set p k v st = Inr st'"
  shows "length (slices st') = length (slices st)"
proof (cases p)
  case NULL
  with assms show ?thesis by (auto simp: j_semantics_set_def slices_log)
next
  case (Addr b)
  show ?thesis
  proof (cases "slice_at st b")
    case None
    with assms Addr show ?thesis by (simp add: dead_faults)
  next
    case (Some e)
    with assms Addr show ?thesis
      by (cases "immutable e")
         (auto simp: set_immutable set_mutable length_store slices_log split: if_splits)
  qed
qed

lemma get_length:
  assumes "j_semantics_get p k st = Inr (v, st')"
  shows "length (slices st') = length (slices st)"
proof (cases p)
  case NULL
  with assms show ?thesis by (auto simp: j_semantics_get_def slices_log)
next
  case (Addr b)
  show ?thesis
  proof (cases "slice_at st b")
    case None
    with assms Addr show ?thesis by (simp add: dead_faults)
  next
    case (Some e)
    with assms Addr show ?thesis
      by (cases k) (auto simp: j_semantics_get_def slices_log)
  qed
qed

lemma new_length: "length (slices (snd (j_semantics_new H T st))) = Suc (length (slices st))"
  by (cases T) (simp_all add: new_as_slice length_new slices_log)

lemma parse_length:
  assumes "j_semantics_parse H t s st = Inr (p, st')"
  shows "length (slices st') = Suc (length (slices st))"
  using assms by (cases s) (auto simp: parse_no_overrides parse_overrides g_slice_new_def)

lemma do_call_length:
  assumes "do_call H c st = Inr st'"
  shows "length (slices st) \<le> length (slices st')"
proof (cases c)
  case (Call_new T)
  with assms show ?thesis by (auto simp: new_length)
next
  case (Call_ref p)
  with assms obtain q where "j_semantics_ref p st = Inr (q, st')"
    by (cases "j_semantics_ref p st") auto
  then show ?thesis by (simp add: ref_length)
next
  case (Call_unref p)
  with assms show ?thesis by (simp add: unref_length)
next
  case (Call_set p k v)
  with assms show ?thesis by (simp add: set_length)
next
  case (Call_get p k)
  with assms obtain v where "j_semantics_get p k st = Inr (v, st')"
    by (cases "j_semantics_get p k st") auto
  then show ?thesis by (simp add: get_length)
next
  case (Call_parse t s)
  with assms obtain p where "j_semantics_parse H t s st = Inr (p, st')"
    by (cases "j_semantics_parse H t s st") auto
  then show ?thesis by (simp add: parse_length)
qed

text \<open>A slice that has been freed stays freed; the object in a slice that has been shared
  keeps its six dimensions and its flag as long as the slice is not freed.\<close>

lemma do_call_freed:
  assumes "do_call H c st = Inr st'" "a < length (slices st)" "slice_at st a = None"
  shows "slice_at st' a = None"
proof (cases c)
  case (Call_new T)
  with assms show ?thesis using new_slice_at [of H T st a] by auto
next
  case (Call_ref p)
  with assms obtain q where "j_semantics_ref p st = Inr (q, st')"
    by (cases "j_semantics_ref p st") auto
  then show ?thesis using assms(3) by (simp add: ref_slice_at)
next
  case (Call_unref p)
  with assms show ?thesis by (simp add: unref_slice_at)
next
  case (Call_set p k v)
  with assms show ?thesis by (simp add: set_slice_at)
next
  case (Call_get p k)
  with assms obtain v where "j_semantics_get p k st = Inr (v, st')"
    by (cases "j_semantics_get p k st") auto
  then show ?thesis using assms(3) by (simp add: get_slice_at)
next
  case (Call_parse t s)
  with assms obtain p where "j_semantics_parse H t s st = Inr (p, st')"
    by (cases "j_semantics_parse H t s st") auto
  then show ?thesis using assms(2,3) by (simp add: parse_slice_at)
qed

lemma frozen_ex:
  "\<exists>r'. d\<lparr>ref_count := x, immutable := True\<rparr> = d\<lparr>immutable := True, ref_count := r'\<rparr>"
  "\<exists>r'. d\<lparr>immutable := True, ref_count := r\<rparr> = d\<lparr>immutable := True, ref_count := r'\<rparr>"
  by (rule exI [of _ x], simp) (rule exI [of _ r], simp)

lemma do_call_frozen:
  assumes "do_call H c st = Inr st'" "slice_at st a = Some (d\<lparr>immutable := True, ref_count := r\<rparr>)"
  shows "slice_at st' a = None \<or> (\<exists>r'. slice_at st' a = Some (d\<lparr>immutable := True, ref_count := r'\<rparr>))"
proof (cases c)
  case (Call_new T)
  have "a < length (slices st)" using assms(2) by (rule slice_at_Some_less)
  with Call_new assms show ?thesis using new_slice_at [of H T st a] by (auto simp: frozen_ex)
next
  case (Call_ref p)
  with assms obtain q where "j_semantics_ref p st = Inr (q, st')"
    by (cases "j_semantics_ref p st") auto
  then show ?thesis using assms(2) by (simp add: ref_slice_at frozen_ex)
next
  case (Call_unref p)
  with assms show ?thesis by (simp add: unref_slice_at frozen_ex)
next
  case (Call_set p k v)
  with assms show ?thesis by (simp add: set_slice_at frozen_ex)
next
  case (Call_get p k)
  with assms obtain v where "j_semantics_get p k st = Inr (v, st')"
    by (cases "j_semantics_get p k st") auto
  then show ?thesis using assms(2) by (simp add: get_slice_at frozen_ex)
next
  case (Call_parse t s)
  have "a < length (slices st)" using assms(2) by (rule slice_at_Some_less)
  moreover from Call_parse assms obtain p where "j_semantics_parse H t s st = Inr (p, st')"
    by (cases "j_semantics_parse H t s st") auto
  ultimately show ?thesis using assms(2) by (simp add: parse_slice_at frozen_ex)
qed

lemma do_calls_freed:
  "do_calls H cs st = Inr st' \<Longrightarrow> a < length (slices st) \<Longrightarrow> slice_at st a = None \<Longrightarrow>
   slice_at st' a = None"
proof (induction cs arbitrary: st)
  case Nil
  then show ?case by simp
next
  case (Cons c cs)
  from Cons.prems(1) obtain st1 where c: "do_call H c st = Inr st1"
    and cs: "do_calls H cs st1 = Inr st'"
    by (cases "do_call H c st") auto
  from c Cons.prems(2) have "a < length (slices st1)"
    using do_call_length [OF c] by simp
  moreover from c Cons.prems(2,3) have "slice_at st1 a = None" by (rule do_call_freed)
  ultimately show ?case using cs Cons.IH by blast
qed

lemma do_calls_frozen:
  "do_calls H cs st = Inr st' \<Longrightarrow>
   slice_at st a = Some (d\<lparr>immutable := True, ref_count := r\<rparr>) \<Longrightarrow>
   slice_at st' a = None \<or> (\<exists>r'. slice_at st' a = Some (d\<lparr>immutable := True, ref_count := r'\<rparr>))"
proof (induction cs arbitrary: st r)
  case Nil
  then show ?case by auto
next
  case (Cons c cs)
  from Cons.prems(1) obtain st1 where c: "do_call H c st = Inr st1"
    and cs: "do_calls H cs st1 = Inr st'"
    by (cases "do_call H c st") auto
  from c Cons.prems(2)
  have "slice_at st1 a = None \<or> (\<exists>r'. slice_at st1 a = Some (d\<lparr>immutable := True, ref_count := r'\<rparr>))"
    by (rule do_call_frozen)
  then show ?case
  proof
    assume dead: "slice_at st1 a = None"
    have "a < length (slices st)" using Cons.prems(2) by (rule slice_at_Some_less)
    then have "a < length (slices st1)" using do_call_length [OF c] by simp
    then have "slice_at st' a = None" using do_calls_freed [OF cs _ dead] by simp
    then show ?thesis ..
  next
    assume "\<exists>r'. slice_at st1 a = Some (d\<lparr>immutable := True, ref_count := r'\<rparr>)"
    then obtain r' where "slice_at st1 a = Some (d\<lparr>immutable := True, ref_count := r'\<rparr>)" ..
    with cs show ?thesis by (rule Cons.IH)
  qed
qed

lemma do_calls_append:
  "do_calls H (xs @ ys) st =
     (case do_calls H xs st of Inl f \<Rightarrow> Inl f | Inr st' \<Rightarrow> do_calls H ys st')"
  by (induction xs arbitrary: st) (auto split: sum.splits)

lemma refs_live:
  "slice_at st a = Some d \<Longrightarrow>
   do_calls H (replicate n (Call_ref (Addr a))) st =
     Inr (if n = 0 then st
          else slice_store a (d\<lparr>ref_count := ref_count d + of_nat n, immutable := True\<rparr>) st)"
proof (induction n arbitrary: st d)
  case 0
  then show ?case by simp
next
  case (Suc n)
  let ?d1 = "d\<lparr>ref_count := ref_count d + 1, immutable := True\<rparr>"
  let ?st1 = "slice_store a ?d1 st"
  have "slice_at ?st1 a = Some ?d1"
    using Suc.prems by (simp add: slice_at_store slice_at_Some_less)
  then have "do_calls H (replicate n (Call_ref (Addr a))) ?st1 =
     Inr (if n = 0 then ?st1
          else slice_store a (?d1\<lparr>ref_count := ref_count ?d1 + of_nat n, immutable := True\<rparr>) ?st1)"
    by (rule Suc.IH)
  then show ?case
    using Suc.prems by (simp add: ref_live slice_store_twice add_ac)
qed

lemma unrefs_live:
  "slice_at st a = Some d \<Longrightarrow> (\<forall>j. 0 < j \<and> j \<le> n \<longrightarrow> ref_count d \<noteq> of_nat j) \<Longrightarrow>
   do_calls H (replicate n (Call_unref (Addr a))) st =
     Inr (slice_store a (d\<lparr>ref_count := ref_count d - of_nat n\<rparr>) st)"
proof (induction n arbitrary: st d)
  case 0
  then show ?case by (simp add: slice_store_same)
next
  case (Suc n)
  let ?d1 = "d\<lparr>ref_count := ref_count d - 1\<rparr>"
  let ?st1 = "slice_store a ?d1 st"
  have "ref_count d \<noteq> of_nat 1" using Suc.prems(2) [rule_format, of 1] by simp
  then have nz: "ref_count d - 1 \<noteq> 0" by simp
  have live: "slice_at ?st1 a = Some ?d1"
    using Suc.prems by (simp add: slice_at_store slice_at_Some_less)
  have "\<forall>j. 0 < j \<and> j \<le> n \<longrightarrow> ref_count ?d1 \<noteq> of_nat j"
  proof (intro allI impI)
    fix j assume "0 < j \<and> j \<le> n"
    then have "ref_count d \<noteq> of_nat (Suc j)"
      using Suc.prems(2) [rule_format, of "Suc j"] by simp
    then show "ref_count ?d1 \<noteq> of_nat j" by (auto simp: algebra_simps)
  qed
  with live have "do_calls H (replicate n (Call_unref (Addr a))) ?st1 =
     Inr (slice_store a (?d1\<lparr>ref_count := ref_count ?d1 - of_nat n\<rparr>) ?st1)"
    by (rule Suc.IH)
  then show ?case
    using Suc.prems(1) nz by (simp add: unref_live slice_store_twice algebra_simps)
qed

lemma word32_of_nat_distinct:
  assumes "0 < j" "j < m" "m \<le> 2 ^ 32"
  shows "(of_nat m :: 32 word) \<noteq> of_nat j"
proof
  assume "(of_nat m :: 32 word) = of_nat j"
  then have "unat (of_nat m :: 32 word) = unat (of_nat j :: 32 word)" by simp
  then have e: "m mod 2 ^ 32 = j mod 2 ^ 32" by (simp add: unat_of_nat)
  show False
  proof (cases "m = 2 ^ 32")
    case True
    with e assms show False by simp
  next
    case False
    with e assms show False by simp
  qed
qed

lemma created_shared_released:
  assumes "slice_at st a = Some d" "ref_count d = 1" "N < 2 ^ 32" "k \<le> N"
  shows "\<exists>st2. do_calls H (replicate N (Call_ref (Addr a))) st = Inr st2 \<and>
     (\<exists>st3 d3. do_calls H (replicate k (Call_unref (Addr a))) st2 = Inr st3 \<and>
        slice_at st3 a = Some d3 \<and> ref_count d3 = of_nat (Suc N - k)) \<and>
     (\<exists>st4. do_calls H (replicate (Suc N) (Call_unref (Addr a))) st2 = Inr st4 \<and>
        slice_at st4 a = None)"
proof -
  have less: "a < length (slices st)" using assms(1) by (rule slice_at_Some_less)
  define d2 where "d2 = (if N = 0 then d else d\<lparr>ref_count := ref_count d + of_nat N, immutable := True\<rparr>)"
  define st2 where "st2 = slice_store a d2 st"
  have refs: "do_calls H (replicate N (Call_ref (Addr a))) st = Inr st2"
    using assms(1) by (simp add: refs_live st2_def d2_def slice_store_same)
  have live2: "slice_at st2 a = Some d2"
    using less by (simp add: st2_def slice_at_store)
  have count2: "ref_count d2 = of_nat (Suc N)"
    using assms(2) by (simp add: d2_def)
  have distinct: "\<forall>j. 0 < j \<and> j \<le> n \<longrightarrow> ref_count d2 \<noteq> of_nat j" if "n \<le> N" for n
  proof (intro allI impI)
    fix j assume j: "0 < j \<and> j \<le> n"
    with that assms(3) have "0 < j" "j < Suc N" "Suc N \<le> 2 ^ 32" by simp_all
    then have "(of_nat (Suc N) :: 32 word) \<noteq> of_nat j" by (rule word32_of_nat_distinct)
    then show "ref_count d2 \<noteq> of_nat j" unfolding count2 .
  qed
  have unrefs: "do_calls H (replicate n (Call_unref (Addr a))) st2 =
       Inr (slice_store a (d2\<lparr>ref_count := ref_count d2 - of_nat n\<rparr>) st2)" if "n \<le> N" for n
    using live2 distinct [OF that] by (rule unrefs_live)
  have "slice_at (slice_store a (d2\<lparr>ref_count := ref_count d2 - of_nat k\<rparr>) st2) a =
      Some (d2\<lparr>ref_count := ref_count d2 - of_nat k\<rparr>)"
    using less by (simp add: slice_at_store st2_def length_store)
  moreover have "ref_count d2 - of_nat k = of_nat (Suc N - k)"
    using assms(4) by (simp add: count2)
  ultimately have part1: "\<exists>st3 d3. do_calls H (replicate k (Call_unref (Addr a))) st2 = Inr st3 \<and>
        slice_at st3 a = Some d3 \<and> ref_count d3 = of_nat (Suc N - k)"
    using unrefs [OF assms(4)] by simp
  let ?dN = "d2\<lparr>ref_count := ref_count d2 - of_nat N\<rparr>"
  let ?stN = "slice_store a ?dN st2"
  have liveN: "slice_at ?stN a = Some ?dN"
    using less by (simp add: slice_at_store st2_def length_store)
  have "ref_count ?dN = 1" by (simp add: count2)
  with liveN have last: "j_semantics_unref (Addr a) ?stN = Inr (g_slice_free a ?stN)"
    by (simp add: unref_live)
  have "replicate (Suc N) (Call_unref (Addr a)) = replicate N (Call_unref (Addr a)) @ [Call_unref (Addr a)]"
    by (simp add: replicate_append_same)
  then have "do_calls H (replicate (Suc N) (Call_unref (Addr a))) st2 = Inr (g_slice_free a ?stN)"
    using unrefs [of N] last by (simp only: do_calls_append) simp
  then have part2: "\<exists>st4. do_calls H (replicate (Suc N) (Call_unref (Addr a))) st2 = Inr st4 \<and>
        slice_at st4 a = None"
    by (simp add: slice_at_free)
  from refs part1 part2 show ?thesis by blast
qed

lemma new_result:
  "\<exists>d. j_semantics_new H T st = (Addr (length (slices st)), snd (j_semantics_new H T st)) \<and>
       slice_at (snd (j_semantics_new H T st)) (length (slices st)) = Some d \<and>
       ref_count d = 1 \<and> \<not> immutable d"
  by (cases T)
     (simp_all add: new_as_slice g_slice_new_def slice_at_def slices_log
        spec_default_def spec_posix_def spec_checkpoint_def)

lemma spec_overrides_fresh:
  "\<not> immutable (spec_overrides H s d) \<longleftrightarrow> \<not> immutable d"
  "ref_count (spec_overrides H s d) = ref_count d"
proof -
  have "immutable (foldl (spec_token H) d ts) = immutable d
      \<and> ref_count (foldl (spec_token H) d ts) = ref_count d" for ts
    by (induction ts arbitrary: d) (simp_all add: spec_token_immutable spec_token_ref_count)
  then show "\<not> immutable (spec_overrides H s d) \<longleftrightarrow> \<not> immutable d"
    and "ref_count (spec_overrides H s d) = ref_count d"
    by (simp_all add: spec_overrides_def)
qed

section \<open>Properties of jsemantics.c\<close>

text \<open>C1: for each of the three templates, \<open>j_semantics_new\<close> returns a new object whose six
  dimensions are those of the table (default: atomicity none, concurrency overlapping,
  consistency immediate, persistency eventual, safety none, security strict; POSIX is the
  default with atomicity operation; checkpoint is the default with concurrency non-overlapping,
  consistency eventual and security none), with reference count 1 and not immutable; nothing
  is logged and no other slice changes.\<close>

theorem j_semantics_new_templates:
  "j_semantics_new H J_SEMANTICS_TEMPLATE_DEFAULT st =
     (Addr (length (slices st)),
      st\<lparr>slices := slices st @
        [Some \<lparr>atomicity = H J_SEMANTICS_ATOMICITY_NONE,
               consistency = H J_SEMANTICS_CONSISTENCY_IMMEDIATE,
               persistency = H J_SEMANTICS_PERSISTENCY_EVENTUAL,
               concurrency = H J_SEMANTICS_CONCURRENCY_OVERLAPPING,
               safety = H J_SEMANTICS_SAFETY_NONE,
               security = H J_SEMANTICS_SECURITY_STRICT,
               immutable = False, ref_count = 1\<rparr>]\<rparr>)
   \<and> j_semantics_new H J_SEMANTICS_TEMPLATE_POSIX st =
     (Addr (length (slices st)),
      st\<lparr>slices := slices st @
        [Some \<lparr>atomicity = H J_SEMANTICS_ATOMICITY_OPERATION,
               consistency = H J_SEMANTICS_CONSISTENCY_IMMEDIATE,
               persistency = H J_SEMANTICS_PERSISTENCY_EVENTUAL,
               concurrency = H J_SEMANTICS_CONCURRENCY_OVERLAPPING,
               safety = H J_SEMANTICS_SAFETY_NONE,
               security = H J_SEMANTICS_SECURITY_STRICT,
               immutable = False, ref_count = 1\<rparr>]\<rparr>)
   \<and> j_semantics_new H J_SEMANTICS_TEMPLATE_CHECKPOINT st =
     (Addr (length (slices st)),
      st\<lparr>slices := slices st @
        [Some \<lparr>atomicity = H J_SEMANTICS_ATOMICITY_NONE,
               consistency = H J_SEMANTICS_CONSISTENCY_EVENTUAL,
               persistency = H J_SEMANTICS_PERSISTENCY_EVENTUAL,
               concurrency = H J_SEMANTICS_CONCURRENCY_NON_OVERLAPPING,
               safety = H J_SEMANTICS_SAFETY_NONE,
               security = H J_SEMANTICS_SECURITY_NONE,
               immutable = False, ref_count = 1\<rparr>]\<rparr>)"
  by (simp add: j_semantics_new_def g_slice_new_def)

text \<open>C4: let a live descriptor be shared (\<open>j_semantics_ref\<close>) and let any calls follow
  that run without fault and leave the descriptor allocated. Then the object is the one it was
  at the moment of sharing but for its reference count, with the immutable flag set; every
  \<open>j_semantics_set\<close> on it, with any key and value, logs a critical message and changes no
  slice; and \<open>j_semantics_get\<close> returns for each of the six dimensions the value the
  descriptor had when it was shared. For any descriptor, \<open>j_semantics_set\<close> with one of the six
  keys fails in this way when the flag is set and otherwise overwrites the field of that key
  and no other.\<close>

theorem j_semantics_set_frozen_after_ref:
  assumes "slice_at st0 a = Some d0"
    and "do_calls H (Call_ref (Addr a) # cs) st0 = Inr st'"
    and "slice_at st' a \<noteq> None"
  shows "(\<exists>r. slice_at st' a = Some (d0\<lparr>immutable := True, ref_count := r\<rparr>))
    \<and> j_semantics_set (Addr a) key val st' = Inr (g_log G_LOG_LEVEL_CRITICAL st')
    \<and> slices (g_log G_LOG_LEVEL_CRITICAL st') = slices st'
    \<and> map (\<lambda>k. j_semantics_get (Addr a) k st')
         [J_SEMANTICS_ATOMICITY, J_SEMANTICS_CONCURRENCY, J_SEMANTICS_CONSISTENCY,
          J_SEMANTICS_PERSISTENCY, J_SEMANTICS_SAFETY, J_SEMANTICS_SECURITY] =
       [Inr (atomicity d0, st'), Inr (concurrency d0, st'), Inr (consistency d0, st'),
        Inr (persistency d0, st'), Inr (safety d0, st'), Inr (security d0, st')]
    \<and> j_semantics_set (Addr b) J_SEMANTICS_ATOMICITY v st =
        (case slice_at st b of None \<Rightarrow> Inl InvalidPointer
         | Some d \<Rightarrow> if immutable d then Inr (g_log G_LOG_LEVEL_CRITICAL st)
                     else Inr (slice_store b (d\<lparr>atomicity := v\<rparr>) st))
    \<and> j_semantics_set (Addr b) J_SEMANTICS_CONCURRENCY v st =
        (case slice_at st b of None \<Rightarrow> Inl InvalidPointer
         | Some d \<Rightarrow> if immutable d then Inr (g_log G_LOG_LEVEL_CRITICAL st)
                     else Inr (slice_store b (d\<lparr>concurrency := v\<rparr>) st))
    \<and> j_semantics_set (Addr b) J_SEMANTICS_CONSISTENCY v st =
        (case slice_at st b of None \<Rightarrow> Inl InvalidPointer
         | Some d \<Rightarrow> if immutable d then Inr (g_log G_LOG_LEVEL_CRITICAL st)
                     else Inr (slice_store b (d\<lparr>consistency := v\<rparr>) st))
    \<and> j_semantics_set (Addr b) J_SEMANTICS_PERSISTENCY v st =
        (case slice_at st b of None \<Rightarrow> Inl InvalidPointer
         | Some d \<Rightarrow> if immutable d then Inr (g_log G_LOG_LEVEL_CRITICAL st)
                     else Inr (slice_store b (d\<lparr>persistency := v\<rparr>) st))
    \<and> j_semantics_set (Addr b) J_SEMANTICS_SAFETY v st =
        (case slice_at st b of None \<Rightarrow> Inl InvalidPointer
         | Some d \<Rightarrow> if immutable d then Inr (g_log G_LOG_LEVEL_CRITICAL st)
                     else Inr (slice_store b (d\<lparr>safety := v\<rparr>) st))
    \<and> j_semantics_set (Addr b) J_SEMANTICS_SECURITY v st =
        (case slice_at st b of None \<Rightarrow> Inl InvalidPointer
         | Some d \<Rightarrow> if immutable d then Inr (g_log G_LOG_LEVEL_CRITICAL st)
                     else Inr (slice_store b (d\<lparr>security := v\<rparr>) st))"
proof -
  let ?d1 = "d0\<lparr>ref_count := ref_count d0 + 1, immutable := True\<rparr>"
  let ?st1 = "slice_store a ?d1 st0"
  have "a < length (slices st0)" using assms(1) by (rule slice_at_Some_less)
  then have live1: "slice_at ?st1 a = Some (d0\<lparr>immutable := True, ref_count := ref_count d0 + 1\<rparr>)"
    by (simp add: slice_at_store)
  have rest: "do_calls H cs ?st1 = Inr st'"
    using assms(1,2) by (simp add: ref_live)
  from do_calls_frozen [OF rest live1] assms(3)
  obtain r where live: "slice_at st' a = Some (d0\<lparr>immutable := True, ref_count := r\<rparr>)"
    by auto
  then have frozen: "\<exists>r. slice_at st' a = Some (d0\<lparr>immutable := True, ref_count := r\<rparr>)" ..
  have fails: "j_semantics_set (Addr a) key val st' = Inr (g_log G_LOG_LEVEL_CRITICAL st')"
    using live by (simp add: set_immutable)
  have gets: "map (\<lambda>k. j_semantics_get (Addr a) k st')
         [J_SEMANTICS_ATOMICITY, J_SEMANTICS_CONCURRENCY, J_SEMANTICS_CONSISTENCY,
          J_SEMANTICS_PERSISTENCY, J_SEMANTICS_SAFETY, J_SEMANTICS_SECURITY] =
       [Inr (atomicity d0, st'), Inr (concurrency d0, st'), Inr (consistency d0, st'),
        Inr (persistency d0, st'), Inr (safety d0, st'), Inr (security d0, st')]"
    using live by (simp add: j_semantics_get_def)
  have sets:
    "j_semantics_set (Addr b) J_SEMANTICS_ATOMICITY v st =
        (case slice_at st b of None \<Rightarrow> Inl InvalidPointer
         | Some d \<Rightarrow> if immutable d then Inr (g_log G_LOG_LEVEL_CRITICAL st)
                     else Inr (slice_store b (d\<lparr>atomicity := v\<rparr>) st))"
    "j_semantics_set (Addr b) J_SEMANTICS_CONCURRENCY v st =
        (case slice_at st b of None \<Rightarrow> Inl InvalidPointer
         | Some d \<Rightarrow> if immutable d then Inr (g_log G_LOG_LEVEL_CRITICAL st)
                     else Inr (slice_store b (d\<lparr>concurrency := v\<rparr>) st))"
    "j_semantics_set (Addr b) J_SEMANTICS_CONSISTENCY v st =
        (case slice_at st b of None \<Rightarrow> Inl InvalidPointer
         | Some d \<Rightarrow> if immutable d then Inr (g_log G_LOG_LEVEL_CRITICAL st)
                     else Inr (slice_store b (d\<lparr>consistency := v\<rparr>) st))"
    "j_semantics_set (Addr b) J_SEMANTICS_PERSISTENCY v st =
        (case slice_at st b of None \<Rightarrow> Inl InvalidPointer
         | Some d \<Rightarrow> if immutable d then Inr (g_log G_LOG_LEVEL_CRITICAL st)
                     else Inr (slice_store b (d\<lparr>persistency := v\<rparr>) st))"
    "j_semantics_set (Addr b) J_SEMANTICS_SAFETY v st =
        (case slice_at st b of None \<Rightarrow> Inl InvalidPointer
         | Some d \<Rightarrow> if immutable d then Inr (g_log G_LOG_LEVEL_CRITICAL st)
                     else Inr (slice_store b (d\<lparr>safety := v\<rparr>) st))"
    "j_semantics_set (Addr b) J_SEMANTICS_SECURITY v st =
        (case slice_at st b of None \<Rightarrow> Inl InvalidPointer
         | Some d \<Rightarrow> if immutable d then Inr (g_log G_LOG_LEVEL_CRITICAL st)
                     else Inr (slice_store b (d\<lparr>security := v\<rparr>) st))"
    by (simp_all add: j_semantics_set_def split: option.splits)
  have log: "slices (g_log G_LOG_LEVEL_CRITICAL st') = slices st'" by (rule slices_log)
  from frozen fails log gets sets show ?thesis
    by (intro conjI)
qed

text \<open>C4 at a concrete run: a POSIX descriptor is shared, a set on it is tried, another
  descriptor is created and changed, and the first is shared and released once more.\<close>

theorem j_semantics_set_frozen_after_ref_witness:
  "slice_at
     \<lparr>slices = [Some \<lparr>atomicity = 1, consistency = 0, persistency = 1, concurrency = 0,
         safety = 2, security = 0, immutable = False, ref_count = 1\<rparr>],
       iterators = [], calls = [], messages = []\<rparr> 0 =
     Some \<lparr>atomicity = 1, consistency = 0, persistency = 1, concurrency = 0,
         safety = 2, security = 0, immutable = False, ref_count = 1\<rparr>
   \<and> do_calls example_numbering
       [Call_ref (Addr 0), Call_set (Addr 0) J_SEMANTICS_SAFETY 0,
        Call_new J_SEMANTICS_TEMPLATE_DEFAULT, Call_set (Addr 1) J_SEMANTICS_ATOMICITY 0,
        Call_ref (Addr 0), Call_unref (Addr 0), Call_get (Addr 0) J_SEMANTICS_SAFETY]
       \<lparr>slices = [Some \<lparr>atomicity = 1, consistency = 0, persistency = 1, concurrency = 0,
           safety = 2, security = 0, immutable = False, ref_count = 1\<rparr>],
         iterators = [], calls = [], messages = []\<rparr> =
     Inr \<lparr>slices = [Some \<lparr>atomicity = 1, consistency = 0, persistency = 1, concurrency = 0,
                 safety = 2, security = 0, immutable = True, ref_count = 2\<rparr>,
               Some \<lparr>atomicity = 0, consistency = 0, persistency = 1, concurrency = 0,
                 safety = 2, security = 0, immutable = False, ref_count = 1\<rparr>],
           iterators = [], calls = [], messages = [G_LOG_LEVEL_CRITICAL]\<rparr>
   \<and> j_semantics_set (Addr 0) J_SEMANTICS_SAFETY 0
       \<lparr>slices = [Some \<lparr>atomicity = 1, consistency = 0, persistency = 1, concurrency = 0,
                 safety = 2, security = 0, immutable = True, ref_count = 2\<rparr>,
               Some \<lparr>atomicity = 0, consistency = 0, persistency = 1, concurrency = 0,
                 safety = 2, security = 0, immutable = False, ref_count = 1\<rparr>],
           iterators = [], calls = [], messages = [G_LOG_LEVEL_CRITICAL]\<rparr> =
     Inr \<lparr>slices = [Some \<lparr>atomicity = 1, consistency = 0, persistency = 1, concurrency = 0,
                 safety = 2, security = 0, immutable = True, ref_count = 2\<rparr>,
               Some \<lparr>atomicity = 0, consistency = 0, persistency = 1, concurrency = 0,
                 safety = 2, security = 0, immutable = False, ref_count = 1\<rparr>],
           iterators = [], calls = [],
           messages = [G_LOG_LEVEL_CRITICAL, G_LOG_LEVEL_CRITICAL]\<rparr>
   \<and> j_semantics_get (Addr 0) J_SEMANTICS_SAFETY
       \<lparr>slices = [Some \<lparr>atomicity = 1, consistency = 0, persistency = 1, concurrency = 0,
                 safety = 2, security = 0, immutable = True, ref_count = 2\<rparr>,
               Some \<lparr>atomicity = 0, consistency = 0, persistency = 1, concurrency = 0,
                 safety = 2, security = 0, immutable = False, ref_count = 1\<rparr>],
           iterators = [], calls = [], messages = [G_LOG_LEVEL_CRITICAL]\<rparr> =
     Inr (2,
       \<lparr>slices = [Some \<lparr>atomicity = 1, consistency = 0, persistency = 1, concurrency = 0,
                 safety = 2, security = 0, immutable = True, ref_count = 2\<rparr>,
               Some \<lparr>atomicity = 0, consistency = 0, persistency = 1, concurrency = 0,
                 safety = 2, security = 0, immutable = False, ref_count = 1\<rparr>],
           iterators = [], calls = [], messages = [G_LOG_LEVEL_CRITICAL]\<rparr>)"
proof -
  let ?d0 = "\<lparr>atomicity = 1, consistency = 0, persistency = 1, concurrency = 0,
         safety = 2, security = 0, immutable = False, ref_count = 1 :: gint\<rparr>"
  let ?st0 = "\<lparr>slices = [Some ?d0], iterators = [], calls = [], messages = []\<rparr>"
  let ?cs = "[Call_set (Addr 0) J_SEMANTICS_SAFETY 0,
        Call_new J_SEMANTICS_TEMPLATE_DEFAULT, Call_set (Addr 1) J_SEMANTICS_ATOMICITY 0,
        Call_ref (Addr 0), Call_unref (Addr 0), Call_get (Addr 0) J_SEMANTICS_SAFETY]"
  let ?st' = "\<lparr>slices = [Some \<lparr>atomicity = 1, consistency = 0, persistency = 1, concurrency = 0,
                 safety = 2, security = 0, immutable = True, ref_count = 2 :: gint\<rparr>,
               Some \<lparr>atomicity = 0, consistency = 0, persistency = 1, concurrency = 0,
                 safety = 2, security = 0, immutable = False, ref_count = 1\<rparr>],
           iterators = [], calls = [], messages = [G_LOG_LEVEL_CRITICAL]\<rparr>"
  have h1: "slice_at ?st0 0 = Some ?d0" by (simp add: slice_at_def)
  have h2: "do_calls example_numbering (Call_ref (Addr 0) # ?cs) ?st0 = Inr ?st'"
    by (simp add: j_semantics_ref_def j_semantics_unref_def j_semantics_set_def
        j_semantics_get_def j_semantics_new_def g_slice_new_def slice_store_def slice_at_def
        g_log_def Let_def)
  have h3: "slice_at ?st' 0 \<noteq> None" by (simp add: slice_at_def)
  note t = j_semantics_set_frozen_after_ref [OF h1 h2 h3,
      where key = J_SEMANTICS_SAFETY and val = 0 and b = 0 and v = 0 and st = ?st0]
  from t have c1: "j_semantics_set (Addr 0) J_SEMANTICS_SAFETY 0 ?st' =
      Inr (g_log G_LOG_LEVEL_CRITICAL ?st')"
    by (elim conjE)
  from t have c2: "map (\<lambda>k. j_semantics_get (Addr 0) k ?st')
         [J_SEMANTICS_ATOMICITY, J_SEMANTICS_CONCURRENCY, J_SEMANTICS_CONSISTENCY,
          J_SEMANTICS_PERSISTENCY, J_SEMANTICS_SAFETY, J_SEMANTICS_SECURITY] =
       [Inr (atomicity ?d0, ?st'), Inr (concurrency ?d0, ?st'), Inr (consistency ?d0, ?st'),
        Inr (persistency ?d0, ?st'), Inr (safety ?d0, ?st'), Inr (security ?d0, ?st')]"
    by (elim conjE)
  from c2 have c3: "j_semantics_get (Addr 0) J_SEMANTICS_SAFETY ?st' = Inr (2, ?st')"
    by simp
  from h1 h2 c1 c3 show ?thesis
    by (simp add: g_log_def)
qed

text \<open>C5: for every template name and every override string, \<open>j_semantics_parse\<close> returns
  without fault or message a new descriptor that is the template's descriptor changed by the
  override grammar of the specification (split on commas, tokens without \<open>=\<close> ignored, keys
  and values compared case-sensitively, unknown keys and values ignored, tokens applied from
  left to right). With the template \<open>posix\<close> and the overrides \<open>atomicity=batch,safety=storage\<close>
  the result has atomicity batch, safety storage and the POSIX values elsewhere; with the
  template \<open>default\<close> and \<open>consistency=eventual,consistency=immediate\<close> it has consistency
  immediate.\<close>

theorem j_semantics_parse_overrides:
  "j_semantics_parse H t (Some s) st =
     Inr (Addr (length (slices st)),
          st\<lparr>slices := slices st @ [Some (spec_overrides H s (spec_template H t))]\<rparr>)
   \<and> j_semantics_parse H (Some ''posix'') (Some ''atomicity=batch,safety=storage'') st =
     Inr (Addr (length (slices st)),
          st\<lparr>slices := slices st @
            [Some \<lparr>atomicity = H J_SEMANTICS_ATOMICITY_BATCH,
                   consistency = H J_SEMANTICS_CONSISTENCY_IMMEDIATE,
                   persistency = H J_SEMANTICS_PERSISTENCY_EVENTUAL,
                   concurrency = H J_SEMANTICS_CONCURRENCY_OVERLAPPING,
                   safety = H J_SEMANTICS_SAFETY_STORAGE,
                   security = H J_SEMANTICS_SECURITY_STRICT,
                   immutable = False, ref_count = 1\<rparr>]\<rparr>)
   \<and> j_semantics_parse H (Some ''default'')
        (Some ''consistency=eventual,consistency=immediate'') st =
     Inr (Addr (length (slices st)),
          st\<lparr>slices := slices st @
            [Some \<lparr>atomicity = H J_SEMANTICS_ATOMICITY_NONE,
                   consistency = H J_SEMANTICS_CONSISTENCY_IMMEDIATE,
                   persistency = H J_SEMANTICS_PERSISTENCY_EVENTUAL,
                   concurrency = H J_SEMANTICS_CONCURRENCY_OVERLAPPING,
                   safety = H J_SEMANTICS_SAFETY_NONE,
                   security = H J_SEMANTICS_SECURITY_STRICT,
                   immutable = False, ref_count = 1\<rparr>]\<rparr>)"
proof -
  have general: "j_semantics_parse H t (Some s) st =
     Inr (Addr (length (slices st)),
          st\<lparr>slices := slices st @ [Some (spec_overrides H s (spec_template H t))]\<rparr>)" for t s
    by (simp add: parse_overrides g_slice_new_def)
  have posix: "spec_overrides H ''atomicity=batch,safety=storage'' (spec_template H (Some ''posix'')) =
     \<lparr>atomicity = H J_SEMANTICS_ATOMICITY_BATCH,
      consistency = H J_SEMANTICS_CONSISTENCY_IMMEDIATE,
      persistency = H J_SEMANTICS_PERSISTENCY_EVENTUAL,
      concurrency = H J_SEMANTICS_CONCURRENCY_OVERLAPPING,
      safety = H J_SEMANTICS_SAFETY_STORAGE,
      security = H J_SEMANTICS_SECURITY_STRICT,
      immutable = False, ref_count = 1\<rparr>"
    by (simp add: spec_overrides_def spec_token_def spec_dimension_def spec_template_def
        spec_posix_def spec_default_def)
  have default: "spec_overrides H ''consistency=eventual,consistency=immediate''
       (spec_template H (Some ''default'')) =
     \<lparr>atomicity = H J_SEMANTICS_ATOMICITY_NONE,
      consistency = H J_SEMANTICS_CONSISTENCY_IMMEDIATE,
      persistency = H J_SEMANTICS_PERSISTENCY_EVENTUAL,
      concurrency = H J_SEMANTICS_CONCURRENCY_OVERLAPPING,
      safety = H J_SEMANTICS_SAFETY_NONE,
      security = H J_SEMANTICS_SECURITY_STRICT,
      immutable = False, ref_count = 1\<rparr>"
    by (simp add: spec_overrides_def spec_token_def spec_dimension_def spec_template_def
        spec_default_def)
  show ?thesis
    by (simp only: general posix default)
qed

text \<open>C6: for every template name and every override string, present or absent,
  \<open>j_semantics_parse\<close> starts from the descriptor that \<open>j_semantics_new\<close> makes for the POSIX
  template when the name is \<open>posix\<close>, for the checkpoint template when it is \<open>checkpoint\<close>, and
  for the default template for any other name (\<open>bogus-template\<close>, the empty string,
  \<^verbatim>\<open>NULL\<close>), without fault or message. With no override string, and with the empty one, it
  returns exactly what \<open>j_semantics_new\<close> returns for that template; with an override string
  it returns that template's descriptor changed by the overrides. In every case the descriptor
  returned is a new one, not immutable and with reference count 1.\<close>

theorem j_semantics_parse_template:
  "j_semantics_parse H t None st =
     Inr (j_semantics_new H
            (if t = Some ''posix'' then J_SEMANTICS_TEMPLATE_POSIX
             else if t = Some ''checkpoint'' then J_SEMANTICS_TEMPLATE_CHECKPOINT
             else J_SEMANTICS_TEMPLATE_DEFAULT) st)
   \<and> j_semantics_parse H (Some ''bogus-template'') None st =
     Inr (j_semantics_new H J_SEMANTICS_TEMPLATE_DEFAULT st)
   \<and> j_semantics_parse H None None st = Inr (j_semantics_new H J_SEMANTICS_TEMPLATE_DEFAULT st)
   \<and> j_semantics_parse H (Some []) None st = Inr (j_semantics_new H J_SEMANTICS_TEMPLATE_DEFAULT st)
   \<and> (\<exists>d. j_semantics_parse H t s st =
            Inr (Addr (length (slices st)), st\<lparr>slices := slices st @ [Some d]\<rparr>)
          \<and> \<not> immutable d \<and> ref_count d = 1)
   \<and> j_semantics_new H
        (if t = Some ''posix'' then J_SEMANTICS_TEMPLATE_POSIX
         else if t = Some ''checkpoint'' then J_SEMANTICS_TEMPLATE_CHECKPOINT
         else J_SEMANTICS_TEMPLATE_DEFAULT) st =
       (Addr (length (slices st)), st\<lparr>slices := slices st @ [Some (spec_template H t)]\<rparr>)
   \<and> j_semantics_parse H t (Some str) st =
       Inr (Addr (length (slices st)),
            st\<lparr>slices := slices st @ [Some (spec_overrides H str (spec_template H t))]\<rparr>)
   \<and> j_semantics_parse H t (Some []) st =
       Inr (j_semantics_new H
              (if t = Some ''posix'' then J_SEMANTICS_TEMPLATE_POSIX
               else if t = Some ''checkpoint'' then J_SEMANTICS_TEMPLATE_CHECKPOINT
               else J_SEMANTICS_TEMPLATE_DEFAULT) st)
   \<and> j_semantics_parse H (Some ''posix'') (Some []) st =
       Inr (j_semantics_new H J_SEMANTICS_TEMPLATE_POSIX st)
   \<and> j_semantics_parse H (Some ''checkpoint'') (Some []) st =
       Inr (j_semantics_new H J_SEMANTICS_TEMPLATE_CHECKPOINT st)"
proof -
  let ?sel = "\<lambda>t. if t = Some ''posix'' then J_SEMANTICS_TEMPLATE_POSIX
             else if t = Some ''checkpoint'' then J_SEMANTICS_TEMPLATE_CHECKPOINT
             else J_SEMANTICS_TEMPLATE_DEFAULT"
  have sel: "j_semantics_parse H t None st = Inr (j_semantics_new H (?sel t) st)" for t
    by (simp add: j_semantics_parse_def split: prod.splits)
  have fresh: "\<not> immutable (spec_template H t) \<and> ref_count (spec_template H t) = 1"
    by (simp add: spec_template_def spec_default_def spec_posix_def spec_checkpoint_def)
  have ex: "\<exists>d. j_semantics_parse H t s st =
            Inr (Addr (length (slices st)), st\<lparr>slices := slices st @ [Some d]\<rparr>)
          \<and> \<not> immutable d \<and> ref_count d = 1"
  proof (cases s)
    case None
    then show ?thesis using fresh
      by (intro exI [of _ "spec_template H t"]) (simp add: parse_no_overrides g_slice_new_def)
  next
    case (Some str)
    then show ?thesis using fresh
      by (intro exI [of _ "spec_overrides H str (spec_template H t)"])
         (simp add: parse_overrides g_slice_new_def spec_overrides_fresh)
  qed
  have new: "j_semantics_new H (?sel t) st =
       (Addr (length (slices st)), st\<lparr>slices := slices st @ [Some (spec_template H t)]\<rparr>)" for t
    by (simp add: new_as_slice spec_template_def g_slice_new_def)
  have over: "j_semantics_parse H t (Some str) st =
       Inr (Addr (length (slices st)),
            st\<lparr>slices := slices st @ [Some (spec_overrides H str (spec_template H t))]\<rparr>)" for t str
    by (simp add: parse_overrides g_slice_new_def)
  have none: "spec_overrides H [] d = d" for d
    by (simp add: spec_overrides_def spec_token_def)
  have empty: "j_semantics_parse H t (Some []) st = Inr (j_semantics_new H (?sel t) st)" for t
    by (simp only: over none new)
  from sel [of t] sel [of "Some ''bogus-template''"] sel [of None] sel [of "Some []"] ex
    new [of t] over [of t str] empty [of t] empty [of "Some ''posix''"]
    empty [of "Some ''checkpoint''"]
  show ?thesis by simp
qed

text \<open>C8, as stated, fails: for a template value that is none of the three enumerators,
  \<open>j_semantics_new\<close> returns. It logs a warning and returns a descriptor with the values of the
  default template, the same object that the default template gives.\<close>

theorem j_semantics_new_out_of_range_counterexample:
  "j_semantics_new example_numbering J_SEMANTICS_TEMPLATE_out_of_range empty_state =
     (Addr 0,
      \<lparr>slices = [Some \<lparr>atomicity = 2, consistency = 0, persistency = 1, concurrency = 0,
                        safety = 2, security = 0, immutable = False, ref_count = 1\<rparr>],
       iterators = [], calls = [], messages = [G_LOG_LEVEL_WARNING]\<rparr>)
   \<and> slices (snd (j_semantics_new example_numbering J_SEMANTICS_TEMPLATE_out_of_range empty_state)) =
     slices (snd (j_semantics_new example_numbering J_SEMANTICS_TEMPLATE_DEFAULT empty_state))"
  by (simp add: j_semantics_new_def g_slice_new_def g_log_def empty_state_def)

text \<open>C8, amended: for a template value outside the three enumerators, \<open>j_semantics_new\<close>
  logs one warning, does not abort, and returns a new descriptor, not immutable and with
  reference count 1, that carries the values of the default template.\<close>

theorem j_semantics_new_out_of_range:
  "j_semantics_new H J_SEMANTICS_TEMPLATE_out_of_range st =
     (Addr (length (slices st)),
      st\<lparr>slices := slices st @
            [Some \<lparr>atomicity = H J_SEMANTICS_ATOMICITY_NONE,
                   consistency = H J_SEMANTICS_CONSISTENCY_IMMEDIATE,
                   persistency = H J_SEMANTICS_PERSISTENCY_EVENTUAL,
                   concurrency = H J_SEMANTICS_CONCURRENCY_OVERLAPPING,
                   safety = H J_SEMANTICS_SAFETY_NONE,
                   security = H J_SEMANTICS_SECURITY_STRICT,
                   immutable = False, ref_count = 1\<rparr>],
          messages := messages st @ [G_LOG_LEVEL_WARNING]\<rparr>)
   \<and> slices (snd (j_semantics_new H J_SEMANTICS_TEMPLATE_out_of_range st)) =
     slices (snd (j_semantics_new H J_SEMANTICS_TEMPLATE_DEFAULT st))"
  by (simp add: j_semantics_new_def g_slice_new_def g_log_def)

text \<open>C7, amended: \<open>j_semantics_unref\<close> on a live descriptor decrements the reference count and
  frees the slice exactly when the new count is zero. For a descriptor created once and
  shared \<open>N\<close> times, with \<open>N\<close> below \<open>2 ^ 32\<close> (the counter is a 32-bit integer and wraps
  around), each of the first \<open>N\<close> releases leaves the descriptor allocated, and release
  number \<open>N + 1\<close> frees it.\<close>

theorem j_semantics_unref_frees_at_zero:
  assumes "N < 2 ^ 32" and "k \<le> N"
  shows "(case j_semantics_new H T st0 of (p, st1) \<Rightarrow>
           \<exists>st2. do_calls H (replicate N (Call_ref p)) st1 = Inr st2 \<and>
             (\<exists>st3 d3. do_calls H (replicate k (Call_unref p)) st2 = Inr st3 \<and>
                slice_at st3 (length (slices st0)) = Some d3 \<and>
                ref_count d3 = of_nat (Suc N - k)) \<and>
             (\<exists>st4. do_calls H (replicate (Suc N) (Call_unref p)) st2 = Inr st4 \<and>
                slice_at st4 (length (slices st0)) = None))
    \<and> j_semantics_unref (Addr a) st =
        (case slice_at st a of None \<Rightarrow> Inl InvalidPointer
         | Some d \<Rightarrow>
             Inr (if ref_count d - 1 = 0 then g_slice_free a st
                  else slice_store a (d\<lparr>ref_count := ref_count d - 1\<rparr>) st))
    \<and> slice_at (g_slice_free a st) a = None
    \<and> slice_at (slice_store a d' st) a = (if a < length (slices st) then Some d' else None)"
proof -
  obtain d where new: "j_semantics_new H T st0 = (Addr (length (slices st0)), snd (j_semantics_new H T st0))"
    and live: "slice_at (snd (j_semantics_new H T st0)) (length (slices st0)) = Some d"
    and one: "ref_count d = 1"
    using new_result [of H T st0] by blast
  have run: "\<exists>st2. do_calls H (replicate N (Call_ref (Addr (length (slices st0))))) (snd (j_semantics_new H T st0)) = Inr st2 \<and>
     (\<exists>st3 d3. do_calls H (replicate k (Call_unref (Addr (length (slices st0))))) st2 = Inr st3 \<and>
        slice_at st3 (length (slices st0)) = Some d3 \<and> ref_count d3 = of_nat (Suc N - k)) \<and>
     (\<exists>st4. do_calls H (replicate (Suc N) (Call_unref (Addr (length (slices st0))))) st2 = Inr st4 \<and>
        slice_at st4 (length (slices st0)) = None)"
    using live one assms by (rule created_shared_released)
  have step: "j_semantics_unref (Addr a) st =
        (case slice_at st a of None \<Rightarrow> Inl InvalidPointer
         | Some d \<Rightarrow>
             Inr (if ref_count d - 1 = 0 then g_slice_free a st
                  else slice_store a (d\<lparr>ref_count := ref_count d - 1\<rparr>) st))"
    by (cases "slice_at st a") (simp_all add: dead_faults unref_live)
  have freed: "slice_at (g_slice_free a st) a = None" by (simp add: slice_at_free)
  have stored: "slice_at (slice_store a d' st) a = (if a < length (slices st) then Some d' else None)"
    by (simp add: slice_at_def slice_store_def)
  have "case j_semantics_new H T st0 of (p, st1) \<Rightarrow>
           \<exists>st2. do_calls H (replicate N (Call_ref p)) st1 = Inr st2 \<and>
             (\<exists>st3 d3. do_calls H (replicate k (Call_unref p)) st2 = Inr st3 \<and>
                slice_at st3 (length (slices st0)) = Some d3 \<and>
                ref_count d3 = of_nat (Suc N - k)) \<and>
             (\<exists>st4. do_calls H (replicate (Suc N) (Call_unref p)) st2 = Inr st4 \<and>
                slice_at st4 (length (slices st0)) = None)"
    by (subst new) (simp only: prod.case run)
  with step freed stored show ?thesis by (intro conjI)
qed

text \<open>C7, amended, at \<open>N = 2\<close>: after two shares, one release leaves the descriptor allocated
  with count 2, and three releases free it.\<close>

theorem j_semantics_unref_frees_at_zero_witness:
  "(2::nat) < 2 ^ 32 \<and> (1::nat) \<le> 2
   \<and> do_calls example_numbering (replicate 2 (Call_ref (Addr 0)) @ replicate 1 (Call_unref (Addr 0)))
       (snd (j_semantics_new example_numbering J_SEMANTICS_TEMPLATE_DEFAULT empty_state)) =
     Inr \<lparr>slices = [Some \<lparr>atomicity = 2, consistency = 0, persistency = 1, concurrency = 0,
                        safety = 2, security = 0, immutable = True, ref_count = 2\<rparr>],
          iterators = [], calls = [], messages = []\<rparr>
   \<and> do_calls example_numbering (replicate 2 (Call_ref (Addr 0)) @ replicate 3 (Call_unref (Addr 0)))
       (snd (j_semantics_new example_numbering J_SEMANTICS_TEMPLATE_DEFAULT empty_state)) =
     Inr \<lparr>slices = [None], iterators = [], calls = [], messages = []\<rparr>"
proof -
  have h1: "(2::nat) < 2 ^ 32" by simp
  have h2: "(1::nat) \<le> 2" by simp
  note t = j_semantics_unref_frees_at_zero [OF h1 h2, where H = example_numbering
      and T = J_SEMANTICS_TEMPLATE_DEFAULT and ?st0.0 = empty_state and a = 0
      and st = empty_state]
  have ev: "replicate 2 x = [x, x]" "replicate 3 x = [x, x, x]" "replicate 1 x = [x]" for x :: semantics_call
    by (simp_all add: numeral_2_eq_2 numeral_3_eq_3)
  show ?thesis
    using h1 h2 t
    by (simp add: ev j_semantics_ref_def j_semantics_unref_def j_semantics_new_def
        g_slice_new_def g_slice_free_def slice_store_def slice_at_def Let_def empty_state_def)
qed

text \<open>C7, as stated, fails at \<open>N = 2 ^ 32\<close>: after that many shares the 32-bit counter of a
  new descriptor is 1 again, and the first release frees the descriptor, not release number
  \<open>2 ^ 32 + 1\<close>.\<close>

theorem j_semantics_unref_wraps_counterexample:
  "do_calls example_numbering (replicate (2 ^ 32) (Call_ref (Addr 0)))
     \<lparr>slices = [Some \<lparr>atomicity = 2, consistency = 0, persistency = 1, concurrency = 0,
                       safety = 2, security = 0, immutable = False, ref_count = 1\<rparr>],
      iterators = [], calls = [], messages = []\<rparr> =
   Inr \<lparr>slices = [Some \<lparr>atomicity = 2, consistency = 0, persistency = 1, concurrency = 0,
                       safety = 2, security = 0, immutable = True, ref_count = 1\<rparr>],
        iterators = [], calls = [], messages = []\<rparr>
   \<and> j_semantics_unref (Addr 0)
     \<lparr>slices = [Some \<lparr>atomicity = 2, consistency = 0, persistency = 1, concurrency = 0,
                       safety = 2, security = 0, immutable = True, ref_count = 1\<rparr>],
      iterators = [], calls = [], messages = []\<rparr> =
   Inr \<lparr>slices = [None], iterators = [], calls = [], messages = []\<rparr>
   \<and> j_semantics_new example_numbering J_SEMANTICS_TEMPLATE_DEFAULT empty_state =
     (Addr 0,
      \<lparr>slices = [Some \<lparr>atomicity = 2, consistency = 0, persistency = 1, concurrency = 0,
                       safety = 2, security = 0, immutable = False, ref_count = 1\<rparr>],
       iterators = [], calls = [], messages = []\<rparr>)"
proof -
  let ?d = "\<lparr>atomicity = 2, consistency = 0, persistency = 1, concurrency = 0,
                       safety = 2, security = 0, immutable = False, ref_count = 1 :: gint\<rparr>"
  let ?st = "\<lparr>slices = [Some ?d], iterators = [], calls = [], messages = []\<rparr>"
  have live: "slice_at ?st 0 = Some ?d" by (simp add: slice_at_def)
  have "do_calls example_numbering (replicate (2 ^ 32) (Call_ref (Addr 0))) ?st =
      Inr (slice_store 0 (?d\<lparr>ref_count := ref_count ?d + of_nat (2 ^ 32), immutable := True\<rparr>) ?st)"
    using refs_live [OF live, of example_numbering "2 ^ 32"] by simp
  then show ?thesis
    by (simp add: slice_store_def j_semantics_unref_def slice_at_def g_slice_free_def
        j_semantics_new_def g_slice_new_def empty_state_def Let_def)
qed

section \<open>Properties of jstore-iterator.c\<close>

lemma iterator_new_calls:
  "j_store_iterator_new W (Addr s) st =
    (let h1 = calls st @ [J_operation_cache_flush];
         store_ref = returned W h1 (J_store_ref (Addr s));
         h2 = h1 @ [J_store_ref (Addr s)];
         conn = returned W h2 (J_connection_pool_pop_meta 0);
         h3 = h2 @ [J_connection_pool_pop_meta 0];
         empty_query = returned W h3 Bson_shared_empty;
         h4 = h3 @ [Bson_shared_empty];
         ns = returned W h4 (J_store_collection_collections store_ref);
         h5 = h4 @ [J_store_collection_collections store_ref];
         cur = returned W h5 (Mongo_find conn ns empty_query NULL 0 0 0)
     in (Addr (length (iterators st)),
         st\<lparr>iterators := iterators st @ [Some \<lparr>connection = conn, store = store_ref, cursor = cur\<rparr>],
            calls := calls st @
              [J_operation_cache_flush, J_store_ref (Addr s), J_connection_pool_pop_meta 0,
               Bson_shared_empty, J_store_collection_collections store_ref,
               Mongo_find conn ns empty_query NULL 0 0 0]\<rparr>))"
  by (simp add: j_store_iterator_new_def call_void_def call_pointer_def g_slice_new_iterator_def
      Let_def)

lemma iterator_free_live:
  "j_store_iterator_free (Addr a) st =
     (case iterator_at st a of
        None \<Rightarrow> Inl InvalidPointer
      | Some it \<Rightarrow>
          Inr (st\<lparr>calls := calls st @
                    [Mongo_cursor_destroy (cursor it),
                     J_connection_pool_push_meta 0 (connection it),
                     J_store_unref (store it)],
                  iterators := (iterators st)[a := None]\<rparr>))"
  by (simp add: j_store_iterator_free_def call_void_def g_slice_free_iterator_def Let_def
      split: option.splits)

text \<open>C2: for every store that is not \<^verbatim>\<open>NULL\<close>, whatever the collaborators return,
  \<open>j_store_iterator_new\<close> makes six calls: the flush of the operation cache first, then the
  reference to the store, the connection from slot 0 of the pool, the empty query, the
  namespace of the store, and last \<^verbatim>\<open>mongo_find\<close>, which opens the cursor. The flush occurs
  once, before the cursor is opened, and no call on the cursor is made. For a store that is
  \<^verbatim>\<open>NULL\<close> no iterator is made and no call at all.\<close>

theorem j_store_iterator_new_flushes_first:
  "\<exists>store_ref conn ns q cur new_calls.
     j_store_iterator_new W (Addr s) st =
       (Addr (length (iterators st)),
        st\<lparr>iterators := iterators st @
               [Some \<lparr>connection = conn, store = store_ref, cursor = cur\<rparr>],
           calls := calls st @ new_calls\<rparr>)
     \<and> new_calls =
         [J_operation_cache_flush, J_store_ref (Addr s), J_connection_pool_pop_meta 0,
          Bson_shared_empty, J_store_collection_collections store_ref,
          Mongo_find conn ns q NULL 0 0 0]
     \<and> count_list new_calls J_operation_cache_flush = 1
     \<and> hd new_calls = J_operation_cache_flush
     \<and> last new_calls = Mongo_find conn ns q NULL 0 0 0
     \<and> calls (snd (j_store_iterator_new W NULL st)) = calls st"
  unfolding iterator_new_calls Let_def
  by (intro exI conjI)
     (rule refl, rule refl, simp_all add: j_store_iterator_new_def g_log_def)

text \<open>C3, as stated, fails: when \<^verbatim>\<open>mongo_find\<close> returns \<^verbatim>\<open>NULL\<close>, \<open>j_store_iterator_new\<close> still
  returns an iterator, with the store reference and the connection in it and \<^verbatim>\<open>NULL\<close> as
  cursor; neither the store reference nor the connection is given back.\<close>

theorem j_store_iterator_new_find_fails_counterexample:
  "j_store_iterator_new example_collaborators (Addr 1) empty_state =
     (Addr 0,
      \<lparr>slices = [],
       iterators = [Some \<lparr>connection = Addr 7, store = Addr 1, cursor = NULL\<rparr>],
       calls = [J_operation_cache_flush, J_store_ref (Addr 1), J_connection_pool_pop_meta 0,
                Bson_shared_empty, J_store_collection_collections (Addr 1),
                Mongo_find (Addr 7) (Addr 9) (Addr 8) NULL 0 0 0],
       messages = []\<rparr>)"
  by (simp add: iterator_new_calls example_collaborators_def empty_state_def Let_def)

text \<open>C3, amended: \<open>j_store_iterator_new\<close> has no failure path for the connection or the
  cursor. For a store that is not \<^verbatim>\<open>NULL\<close> it always returns a new iterator that holds
  whatever \<^verbatim>\<open>j_store_ref\<close>, \<^verbatim>\<open>j_connection_pool_pop_meta\<close> and \<^verbatim>\<open>mongo_find\<close> returned,
  \<^verbatim>\<open>NULL\<close> included, and it gives nothing back. It returns \<^verbatim>\<open>NULL\<close> only for a store that is
  \<^verbatim>\<open>NULL\<close>, with a critical message, before any call to a collaborator.\<close>

theorem j_store_iterator_new_has_no_failure_path:
  "j_store_iterator_new W (Addr s) st =
    (let h1 = calls st @ [J_operation_cache_flush];
         store_ref = returned W h1 (J_store_ref (Addr s));
         h2 = h1 @ [J_store_ref (Addr s)];
         conn = returned W h2 (J_connection_pool_pop_meta 0);
         h3 = h2 @ [J_connection_pool_pop_meta 0];
         empty_query = returned W h3 Bson_shared_empty;
         h4 = h3 @ [Bson_shared_empty];
         ns = returned W h4 (J_store_collection_collections store_ref);
         h5 = h4 @ [J_store_collection_collections store_ref];
         cur = returned W h5 (Mongo_find conn ns empty_query NULL 0 0 0)
     in (Addr (length (iterators st)),
         st\<lparr>iterators := iterators st @ [Some \<lparr>connection = conn, store = store_ref, cursor = cur\<rparr>],
            calls := calls st @
              [J_operation_cache_flush, J_store_ref (Addr s), J_connection_pool_pop_meta 0,
               Bson_shared_empty, J_store_collection_collections store_ref,
               Mongo_find conn ns empty_query NULL 0 0 0]\<rparr>))
   \<and> fst (j_store_iterator_new W (Addr s) st) \<noteq> NULL
   \<and> filter is_release
        (drop (length (calls st)) (calls (snd (j_store_iterator_new W (Addr s) st)))) = []
   \<and> j_store_iterator_new W NULL st = (NULL, st\<lparr>messages := messages st @ [G_LOG_LEVEL_CRITICAL]\<rparr>)"
proof -
  have "fst (j_store_iterator_new W (Addr s) st) \<noteq> NULL"
    by (simp add: iterator_new_calls Let_def)
  moreover have "filter is_release
        (drop (length (calls st)) (calls (snd (j_store_iterator_new W (Addr s) st)))) = []"
    by (simp add: iterator_new_calls Let_def is_release_def)
  moreover have "j_store_iterator_new W NULL st =
      (NULL, st\<lparr>messages := messages st @ [G_LOG_LEVEL_CRITICAL]\<rparr>)"
    by (simp add: j_store_iterator_new_def g_log_def)
  ultimately show ?thesis
    using iterator_new_calls [of W s st] by (intro conjI)
qed

text \<open>C9: on a live iterator, \<open>j_store_iterator_free\<close> destroys the cursor, then pushes the
  connection of the iterator to slot 0 of the pool, then releases one reference on the store
  of the iterator, and frees the slice. For an iterator made by \<open>j_store_iterator_new\<close> the
  connection pushed is the one popped from slot 0, and the store released is the one
  \<^verbatim>\<open>j_store_ref\<close> returned.\<close>

theorem j_store_iterator_free_releases_in_order:
  "j_store_iterator_free (Addr a) st =
     (case iterator_at st a of
        None \<Rightarrow> Inl InvalidPointer
      | Some it \<Rightarrow>
          Inr (st\<lparr>calls := calls st @
                    [Mongo_cursor_destroy (cursor it),
                     J_connection_pool_push_meta 0 (connection it),
                     J_store_unref (store it)],
                  iterators := (iterators st)[a := None]\<rparr>))
   \<and> (case j_store_iterator_new W (Addr s) st of
        (p, st1) \<Rightarrow>
          \<exists>store_ref conn ns q cur.
            calls st1 = calls st @
              [J_operation_cache_flush, J_store_ref (Addr s), J_connection_pool_pop_meta 0,
               Bson_shared_empty, J_store_collection_collections store_ref,
               Mongo_find conn ns q NULL 0 0 0]
          \<and> store_ref = returned W (calls st @ [J_operation_cache_flush]) (J_store_ref (Addr s))
          \<and> conn = returned W (calls st @ [J_operation_cache_flush, J_store_ref (Addr s)])
                     (J_connection_pool_pop_meta 0)
          \<and> cur = returned W (calls st @
                     [J_operation_cache_flush, J_store_ref (Addr s),
                      J_connection_pool_pop_meta 0, Bson_shared_empty,
                      J_store_collection_collections store_ref])
                     (Mongo_find conn ns q NULL 0 0 0)
          \<and> j_store_iterator_free p st1 =
              Inr (st1\<lparr>calls := calls st1 @
                         [Mongo_cursor_destroy cur, J_connection_pool_push_meta 0 conn,
                          J_store_unref store_ref],
                       iterators := (iterators st1)[length (iterators st) := None]\<rparr>))"
proof -
  have "case j_store_iterator_new W (Addr s) st of
        (p, st1) \<Rightarrow>
          \<exists>store_ref conn ns q cur.
            calls st1 = calls st @
              [J_operation_cache_flush, J_store_ref (Addr s), J_connection_pool_pop_meta 0,
               Bson_shared_empty, J_store_collection_collections store_ref,
               Mongo_find conn ns q NULL 0 0 0]
          \<and> store_ref = returned W (calls st @ [J_operation_cache_flush]) (J_store_ref (Addr s))
          \<and> conn = returned W (calls st @ [J_operation_cache_flush, J_store_ref (Addr s)])
                     (J_connection_pool_pop_meta 0)
          \<and> cur = returned W (calls st @
                     [J_operation_cache_flush, J_store_ref (Addr s),
                      J_connection_pool_pop_meta 0, Bson_shared_empty,
                      J_store_collection_collections store_ref])
                     (Mongo_find conn ns q NULL 0 0 0)
          \<and> j_store_iterator_free p st1 =
              Inr (st1\<lparr>calls := calls st1 @
                         [Mongo_cursor_destroy cur, J_connection_pool_push_meta 0 conn,
                          J_store_unref store_ref],
                       iterators := (iterators st1)[length (iterators st) := None]\<rparr>)"
    unfolding iterator_new_calls Let_def prod.case
    by (intro exI conjI) (simp_all add: iterator_free_live iterator_at_def)
  with iterator_free_live [of a st] show ?thesis by (intro conjI)
qed

text \<open>C10: called with \<^verbatim>\<open>NULL\<close>, \<open>j_semantics_ref\<close> and \<open>j_store_iterator_get\<close> return
  \<^verbatim>\<open>NULL\<close>, \<open>j_semantics_get\<close> returns -1, \<open>j_store_iterator_next\<close> returns false,
  \<open>j_store_iterator_new\<close> returns \<^verbatim>\<open>NULL\<close>, and \<open>j_semantics_set\<close>, \<open>j_semantics_unref\<close> and
  \<open>j_store_iterator_free\<close> return; \<open>j_semantics_get\<close> with a key that is none of the six
  returns -1 on a live descriptor. In each case a critical message is logged and nothing
  else changes: no slice, no iterator, no call to a collaborator.\<close>

theorem null_guards:
  "j_semantics_ref NULL st = Inr (NULL, g_log G_LOG_LEVEL_CRITICAL st)
   \<and> j_semantics_unref NULL st = Inr (g_log G_LOG_LEVEL_CRITICAL st)
   \<and> j_semantics_set NULL key val st = Inr (g_log G_LOG_LEVEL_CRITICAL st)
   \<and> j_semantics_get NULL key st = Inr (- 1, g_log G_LOG_LEVEL_CRITICAL st)
   \<and> j_semantics_get (Addr a) J_SEMANTICS_out_of_range st =
       (case slice_at st a of
          None \<Rightarrow> Inl InvalidPointer
        | Some d \<Rightarrow> Inr (- 1, g_log G_LOG_LEVEL_CRITICAL st))
   \<and> j_store_iterator_new W NULL st = (NULL, g_log G_LOG_LEVEL_CRITICAL st)
   \<and> j_store_iterator_free NULL st = Inr (g_log G_LOG_LEVEL_CRITICAL st)
   \<and> j_store_iterator_next W NULL st = Inr (False, g_log G_LOG_LEVEL_CRITICAL st)
   \<and> j_store_iterator_get W NULL st = Inr (NULL, g_log G_LOG_LEVEL_CRITICAL st)
   \<and> g_log G_LOG_LEVEL_CRITICAL st = st\<lparr>messages := messages st @ [G_LOG_LEVEL_CRITICAL]\<rparr>
   \<and> sint (- 1 :: gint) = - 1"
  by (simp add: j_semantics_ref_def j_semantics_unref_def j_semantics_set_def
      j_semantics_get_def j_store_iterator_new_def j_store_iterator_free_def
      j_store_iterator_next_def j_store_iterator_get_def g_log_def split: option.splits)
end
